theory Spec2Isabelle
  imports Complex_Main "HOL-Library.AList" "HOL-Library.Sublist"
begin

section \<open>Data model\<close>

text \<open>
  Envelopes are Python dictionaries decoded from JSON. A dictionary is an association
  list with string keys (the first binding of a key is the one looked up). Numbers are
  integers: TDLib identifiers, codes and counts are integers, and floating point values
  are left out of the model.
\<close>

datatype json =
    JNull
  | JBool bool
  | JInt int
  | JStr string
  | JList "json list"
  | JObj "(string \<times> json) list"

type_synonym pydict = "(string \<times> json) list"

text \<open>
  An exception message: either a literal text, or a \<open>%\<close>-format string together with
  the values substituted into it (the rendering of the values is not needed).
\<close>

datatype msg = Text string | Fmt string "json list"

text \<open>
  The exception classes of \<open>telega.errors\<close> that \<open>client.py\<close> raises, and the
  built-in exceptions that its dictionary and list operations can raise.
\<close>

datatype error =
    TDLibError msg
  | InvalidPhoneNumber msg
  | PasswordError msg
  | TwoFactorPasswordNeeded
  | PhoneCodeInvalid msg
  | NoPermission msg
  | ObjectNotFound msg
  | AlreadyAuthorized msg
  | AlreadyLoggingOut msg
  | AuthError msg
  | TooManyRequests msg
  | UnknownError msg
  | KeyError string
  | AttributeError
  | TypeError
  | IndexError
  | ValueError

datatype log_entry = Info msg | Warning msg

text \<open>
  The client object together with the environment it talks to. \<open>sent\<close> is the list of
  envelopes handed to the channel's \<open>send\<close>, oldest first. \<open>incoming\<close> lists what the
  next calls of \<open>receive(0.1)\<close> will return (an envelope or nothing) and how long each
  of them takes; \<open>clock\<close> is what \<open>time.time()\<close> reads. \<open>uuid_source\<close> and
  \<open>uuid_count\<close> stand for \<open>uuid.uuid4().hex\<close>: the n-th identifier drawn is
  \<open>uuid_source n\<close>. \<open>log\<close> collects the records written through the logger.
  When \<open>incoming\<close> is used up the model has no further observation of the channel, and
  an operation that is still waiting then has the value \<open>None\<close>.
\<close>

record client =
  request_timeout :: "real option"
  request_delay :: real
  sent :: "pydict list"
  incoming :: "(pydict option \<times> real) list"
  clock :: real
  uuid_source :: "nat \<Rightarrow> string"
  uuid_count :: nat
  log :: "log_entry list"

type_synonym 'a result = "((error + 'a) \<times> client) option"

section \<open>Python primitives\<close>

definition truthy :: "real option \<Rightarrow> bool" where
  "truthy t = (case t of None \<Rightarrow> False | Some x \<Rightarrow> x \<noteq> 0)"

definition py_or :: "real option \<Rightarrow> real option \<Rightarrow> real option" where
  "py_or a b = (if truthy a then a else b)"

definition dict_get :: "pydict \<Rightarrow> string \<Rightarrow> json \<Rightarrow> json" where
  "dict_get d k dflt = (case map_of d k of None \<Rightarrow> dflt | Some v \<Rightarrow> v)"

definition dict_item :: "pydict \<Rightarrow> string \<Rightarrow> error + json" where
  "dict_item d k = (case map_of d k of None \<Rightarrow> Inl (KeyError k) | Some v \<Rightarrow> Inr v)"

text \<open>\<open>x.get(k)\<close> on an arbitrary value: only a dictionary has the method.\<close>

definition json_get :: "json \<Rightarrow> string \<Rightarrow> error + json" where
  "json_get x k = (case x of JObj d \<Rightarrow> Inr (dict_get d k JNull) | _ \<Rightarrow> Inl AttributeError)"

text \<open>\<open>x[k]\<close> with a string key on an arbitrary value.\<close>

definition json_item :: "json \<Rightarrow> string \<Rightarrow> error + json" where
  "json_item x k = (case x of JObj d \<Rightarrow> dict_item d k | _ \<Rightarrow> Inl TypeError)"

text \<open>\<open>data.update(params)\<close>: an existing key keeps its place and takes the new value.\<close>

fun dict_update :: "pydict \<Rightarrow> pydict \<Rightarrow> pydict" where
  "dict_update d [] = d"
| "dict_update d ((k, v) # ps) = dict_update (AList.update k v d) ps"

section \<open>The channel\<close>

definition send :: "client \<Rightarrow> pydict \<Rightarrow> client" where
  "send c data = c\<lparr>sent := sent c @ [data]\<rparr>"

definition receive :: "client \<Rightarrow> (pydict option \<times> client) option" where
  "receive c =
     (case incoming c of
        [] \<Rightarrow> None
      | (r, dt) # rest \<Rightarrow> Some (r, c\<lparr>incoming := rest, clock := clock c + dt\<rparr>))"

definition uuid4 :: "client \<Rightarrow> string \<times> client" where
  "uuid4 c = (uuid_source c (uuid_count c), c\<lparr>uuid_count := Suc (uuid_count c)\<rparr>)"

definition sleep :: "client \<Rightarrow> real \<Rightarrow> error + client" where
  "sleep c d = (if d < 0 then Inl ValueError else Inr (c\<lparr>clock := clock c + d\<rparr>))"

definition logger :: "client \<Rightarrow> log_entry \<Rightarrow> client" where
  "logger c e = c\<lparr>log := log c @ [e]\<rparr>"

section \<open>The error classifier\<close>

definition exc_msg :: "json \<Rightarrow> json \<Rightarrow> msg" where
  "exc_msg code message = Fmt ''Telegram error: %s -> %s'' [code, message]"

definition handle_errors :: "pydict \<Rightarrow> error + unit" where
  "handle_errors response =
     (case dict_item response ''@type'' of
        Inl e \<Rightarrow> Inl e
      | Inr ty \<Rightarrow>
          if ty = JStr ''error'' then
            (let message = dict_get response ''message'' (JStr ''Empty error message'');
                 code = dict_get response ''code'' JNull;
                 m = exc_msg code message
             in if message = JStr ''PHONE_NUMBER_INVALID'' then Inl (InvalidPhoneNumber m)
                else if message = JStr ''PASSWORD_HASH_INVALID'' then Inl (PasswordError m)
                else if message = JStr ''PHONE_CODE_INVALID'' then Inl (PhoneCodeInvalid m)
                else if message = JStr ''Supergroup members are unavailable'' then Inl (NoPermission m)
                else if message = JStr ''Chat not found'' then Inl (ObjectNotFound m)
                else if message = JStr ''setAuthenticationPhoneNumber unexpected''
                  then Inl (AlreadyAuthorized m)
                else if message = JStr ''Already logging out'' then Inl (AlreadyLoggingOut m)
                else if code = JInt 401 \<or> message = JStr ''Unauthorized'' then Inl (AuthError m)
                else if code = JInt 429 \<or> code = JInt 420 then Inl (TooManyRequests m)
                else Inl (UnknownError m))
          else Inr ())"

section \<open>The request correlator\<close>

text \<open>\<open>response.get('@extra', {}).get('request_id')\<close>\<close>

definition received_request_id :: "pydict \<Rightarrow> error + json" where
  "received_request_id response = json_get (dict_get response ''@extra'' (JObj [])) ''request_id''"

text \<open>
  The block under \<open>if response:\<close> of the polling loop. \<open>Inl\<close> is an exception,
  \<open>Inr (Some r)\<close> is \<open>return r\<close>, \<open>Inr None\<close> falls through to the timeout check.
  An empty dictionary is falsy, like no value at all.
\<close>

definition poll_step :: "string \<Rightarrow> pydict option \<Rightarrow> error + pydict option" where
  "poll_step request_id response =
     (case response of
        None \<Rightarrow> Inr None
      | Some r \<Rightarrow>
          if r = [] then Inr None
          else (case received_request_id r of
                  Inl e \<Rightarrow> Inl e
                | Inr rid \<Rightarrow>
                    if JStr request_id = rid then
                      (case handle_errors r of Inl e \<Rightarrow> Inl e | Inr _ \<Rightarrow> Inr (Some r))
                    else Inr None))"

definition timed_out :: "client \<Rightarrow> real option \<Rightarrow> real \<Rightarrow> bool" where
  "timed_out c timeout started_at =
     (case timeout of None \<Rightarrow> False | Some t \<Rightarrow> t \<noteq> 0 \<and> clock c - started_at > t)"

function wait_loop :: "client \<Rightarrow> string \<Rightarrow> real option \<Rightarrow> real \<Rightarrow> pydict result" where
  "wait_loop c request_id timeout started_at =
     (case receive c of
        None \<Rightarrow> None
      | Some (response, c1) \<Rightarrow>
          (case poll_step request_id response of
             Inl e \<Rightarrow> Some (Inl e, c1)
           | Inr (Some r) \<Rightarrow> Some (Inr r, c1)
           | Inr None \<Rightarrow>
               if timed_out c1 timeout started_at
               then Some (Inl (UnknownError (Text ''TimeOutError'')), c1)
               else wait_loop c1 request_id timeout started_at))"
  by pat_completeness auto
termination
  by (relation "measure (\<lambda>(c, _, _, _). length (incoming c))")
     (auto simp: receive_def split: list.splits)

definition wait_result :: "client \<Rightarrow> string \<Rightarrow> real option \<Rightarrow> pydict result" where
  "wait_result c request_id timeout = wait_loop c request_id timeout (clock c)"

definition request_data :: "string \<Rightarrow> string \<Rightarrow> pydict \<Rightarrow> pydict" where
  "request_data method_name request_id params =
     dict_update [(''@type'', JStr method_name),
                  (''@extra'', JObj [(''request_id'', JStr request_id)])] params"

definition call_method :: "client \<Rightarrow> string \<Rightarrow> real option \<Rightarrow> pydict \<Rightarrow> pydict result" where
  "call_method c method_name timeout params =
     (let timeout' = py_or timeout (request_timeout c);
          (request_id, c1) = uuid4 c;
          data = request_data method_name request_id params;
          c2 = send c1 data
      in wait_result c2 request_id timeout')"

section \<open>The polling loop consumes the channel\<close>

text \<open>
  Every call of \<open>call_method\<close> that comes back has used at least one poll; the loops
  built on it are defined by recursion on what is left of the channel.
\<close>

declare wait_loop.simps [simp del]

lemma wait_loop_Nil: "incoming c = [] \<Longrightarrow> wait_loop c rid T st = None"
  by (subst wait_loop.simps) (simp add: receive_def)

lemma wait_loop_Cons:
  "incoming c = (e, dt) # rest \<Longrightarrow>
   wait_loop c rid T st =
     (case poll_step rid e of
        Inl err \<Rightarrow> Some (Inl err, c\<lparr>incoming := rest, clock := clock c + dt\<rparr>)
      | Inr (Some r) \<Rightarrow> Some (Inr r, c\<lparr>incoming := rest, clock := clock c + dt\<rparr>)
      | Inr None \<Rightarrow>
          if timed_out (c\<lparr>incoming := rest, clock := clock c + dt\<rparr>) T st
          then Some (Inl (UnknownError (Text ''TimeOutError'')),
                     c\<lparr>incoming := rest, clock := clock c + dt\<rparr>)
          else wait_loop (c\<lparr>incoming := rest, clock := clock c + dt\<rparr>) rid T st)"
  by (subst wait_loop.simps) (simp add: receive_def)

lemma call_method_unfold:
  "call_method c m t ps =
     wait_loop (c\<lparr>uuid_count := Suc (uuid_count c),
                  sent := sent c @ [request_data m (uuid_source c (uuid_count c)) ps]\<rparr>)
       (uuid_source c (uuid_count c)) (py_or t (request_timeout c)) (clock c)"
  by (simp add: call_method_def uuid4_def send_def wait_result_def Let_def)

lemma wait_loop_consumes:
  "wait_loop c rid T st = Some (x, c') \<Longrightarrow> length (incoming c') < length (incoming c)"
proof (induction c rid T st rule: wait_loop.induct)
  case (1 c rid T st)
  show ?case
  proof (cases "incoming c")
    case Nil
    with "1.prems" show ?thesis by (simp add: wait_loop_Nil)
  next
    case (Cons p rest)
    obtain e dt where p: "p = (e, dt)" by (cases p)
    let ?c1 = "c\<lparr>incoming := rest, clock := clock c + dt\<rparr>"
    have rc: "receive c = Some (e, ?c1)" using Cons p by (simp add: receive_def)
    note eq = wait_loop_Cons [OF Cons [unfolded p], of rid T st]
    show ?thesis
    proof (cases "poll_step rid e = Inr None \<and> \<not> timed_out ?c1 T st")
      case True
      then have "wait_loop ?c1 rid T st = Some (x, c')"
        using eq "1.prems" by simp
      with "1.IH" [OF rc refl _ _ _] True have "length (incoming c') < length (incoming ?c1)"
        by simp
      then show ?thesis using Cons by simp
    next
      case False
      then have "c' = ?c1"
        using eq "1.prems" by (auto split: sum.splits option.splits if_splits)
      then show ?thesis using Cons by simp
    qed
  qed
qed

lemma call_method_consumes:
  "call_method c m t ps = Some (x, c') \<Longrightarrow> length (incoming c') < length (incoming c)"
  by (auto simp: call_method_unfold dest: wait_loop_consumes)

section \<open>Python iteration, hashing and length\<close>

text \<open>The elements of \<open>xs\<close> that are not in \<open>seen\<close>, each once, in the order they first occur.\<close>

fun unseen :: "'a set \<Rightarrow> 'a list \<Rightarrow> 'a list" where
  "unseen seen [] = []"
| "unseen seen (x # xs) = (if x \<in> seen then unseen seen xs else x # unseen (insert x seen) xs)"

text \<open>
  \<open>for x in v\<close>: a list gives its elements, a string its characters, a dictionary its
  keys; anything else is not iterable. \<open>len(v)\<close> of such a value is the number of elements
  the loop visits.
\<close>

definition py_iter :: "json \<Rightarrow> error + json list" where
  "py_iter v =
     (case v of
        JList xs \<Rightarrow> Inr xs
      | JStr s \<Rightarrow> Inr (map (\<lambda>ch. JStr [ch]) s)
      | JObj d \<Rightarrow> Inr (map JStr (unseen {} (map fst d)))
      | _ \<Rightarrow> Inl TypeError)"

text \<open>
  The key under which a value is kept in a \<open>set\<close>: lists and dictionaries are unhashable,
  and \<open>True\<close> and \<open>False\<close> are the same keys as \<open>1\<close> and \<open>0\<close>.
\<close>

definition py_key :: "json \<Rightarrow> error + json" where
  "py_key v =
     (case v of
        JList _ \<Rightarrow> Inl TypeError
      | JObj _ \<Rightarrow> Inl TypeError
      | JBool b \<Rightarrow> Inr (JInt (if b then 1 else 0))
      | _ \<Rightarrow> Inr v)"

text \<open>\<open>v != n\<close> for an integer \<open>n\<close>.\<close>

definition py_ne_int :: "json \<Rightarrow> int \<Rightarrow> bool" where
  "py_ne_int v n = (case v of JInt k \<Rightarrow> k \<noteq> n | JBool b \<Rightarrow> (if b then 1 else 0) \<noteq> n | _ \<Rightarrow> True)"

section \<open>Authorization\<close>

definition get_auth_state :: "client \<Rightarrow> json result" where
  "get_auth_state c =
     (case call_method c ''getAuthorizationState'' None [] of
        None \<Rightarrow> None
      | Some (Inl e, c1) \<Rightarrow> Some (Inl e, c1)
      | Some (Inr result, c1) \<Rightarrow>
          (case dict_item result ''@type'' of
             Inl e \<Rightarrow> Some (Inl e, c1)
           | Inr authorization_state \<Rightarrow> Some (Inr authorization_state, c1)))"

definition WaitCode :: json where
  "WaitCode = JStr ''authorizationStateWaitCode''"

definition WaitPassword :: json where
  "WaitPassword = JStr ''authorizationStateWaitPassword''"

text \<open>The part of \<open>send_sms_code\<close> from the second \<open>if\<close> on.\<close>

definition send_password :: "client \<Rightarrow> json \<Rightarrow> string option \<Rightarrow> unit result" where
  "send_password c authorization_state password =
     (case (if authorization_state = WaitPassword then
              (if password = None \<or> password = Some [] then Some (Inl TwoFactorPasswordNeeded, c)
               else (case call_method c ''checkAuthenticationPassword'' None
                            [(''password'', JStr (the password))] of
                       None \<Rightarrow> None
                     | Some (Inl e, c1) \<Rightarrow> Some (Inl e, c1)
                     | Some (Inr send_password_result, c1) \<Rightarrow>
                         Some (Inr (),
                           logger c1 (Info (Fmt ''checkAuthenticationPassword response: %s''
                                        [JObj send_password_result])))))
            else Some (Inr (), c)) of
        None \<Rightarrow> None
      | Some (Inl e, c2) \<Rightarrow> Some (Inl e, c2)
      | Some (Inr _, c2) \<Rightarrow>
          (case get_auth_state c2 of
             None \<Rightarrow> None
           | Some (Inl e, c3) \<Rightarrow> Some (Inl e, c3)
           | Some (Inr _, c3) \<Rightarrow> Some (Inr (), c3)))"

definition send_sms_code :: "client \<Rightarrow> string \<Rightarrow> string option \<Rightarrow> unit result" where
  "send_sms_code c sms_code password =
     (case get_auth_state c of
        None \<Rightarrow> None
      | Some (Inl e, c1) \<Rightarrow> Some (Inl e, c1)
      | Some (Inr authorization_state, c1) \<Rightarrow>
          if authorization_state = WaitCode then
            (case call_method c1 ''checkAuthenticationCode'' None [(''code'', JStr sms_code)] of
               None \<Rightarrow> None
             | Some (Inl e, c2) \<Rightarrow> Some (Inl e, c2)
             | Some (Inr send_code_result, c2) \<Rightarrow>
                 (case get_auth_state
                         (logger c2 (Info (Fmt ''checkAuthenticationCode response: %s''
                                       [JObj send_code_result]))) of
                    None \<Rightarrow> None
                  | Some (Inl e, c3) \<Rightarrow> Some (Inl e, c3)
                  | Some (Inr authorization_state', c3) \<Rightarrow>
                      send_password c3 authorization_state' password))
          else send_password c1 authorization_state password)"

section \<open>Chat listing\<close>

text \<open>The \<open>for\<close> loop over one page of chat identifiers.\<close>

fun fetch_chats ::
  "client \<Rightarrow> json list \<Rightarrow> pydict list \<Rightarrow> json set \<Rightarrow> (pydict list \<times> json set) result" where
  "fetch_chats c [] chats added_chat_ids = Some (Inr (chats, added_chat_ids), c)"
| "fetch_chats c (chat_id # rest) chats added_chat_ids =
     (case py_key chat_id of
        Inl e \<Rightarrow> Some (Inl e, c)
      | Inr key \<Rightarrow>
          if key \<notin> added_chat_ids then
            (case call_method c ''getChat'' None [(''chat_id'', chat_id)] of
               None \<Rightarrow> None
             | Some (Inl e, c1) \<Rightarrow> Some (Inl e, c1)
             | Some (Inr result, c1) \<Rightarrow>
                 fetch_chats c1 rest (chats @ [result]) (insert key added_chat_ids))
          else fetch_chats c rest chats added_chat_ids)"

text \<open>\<open>chats[-1]['order']\<close>\<close>

definition last_order :: "pydict list \<Rightarrow> error + json" where
  "last_order chats = (if chats = [] then Inl IndexError else dict_item (last chats) ''order'')"

lemma fetch_chats_consumes:
  "fetch_chats c ids chats added = Some (x, c') \<Longrightarrow> length (incoming c') \<le> length (incoming c)"
proof (induction ids arbitrary: c chats added)
  case Nil
  then show ?case by simp
next
  case (Cons i ids)
  then show ?case
    by (fastforce split: sum.splits if_splits option.splits prod.splits
        dest: call_method_consumes)
qed

lemma sleep_incoming: "sleep c d = Inr c' \<Longrightarrow> incoming c' = incoming c"
  by (auto simp: sleep_def split: if_splits)

function chats_loop ::
  "client \<Rightarrow> int \<Rightarrow> json \<Rightarrow> pydict list \<Rightarrow> json set \<Rightarrow> pydict list result" where
  "chats_loop c page_size offset_order chats added_chat_ids =
     (case call_method c ''getChats'' None
             [(''offset_order'', offset_order), (''offset_chat_id'', JInt 0),
              (''limit'', JInt page_size)] of
        None \<Rightarrow> None
      | Some (Inl e, c1) \<Rightarrow> Some (Inl e, c1)
      | Some (Inr result, c1) \<Rightarrow>
          (case dict_item result ''chat_ids'' of
             Inl e \<Rightarrow> Some (Inl e, c1)
           | Inr chat_id_list \<Rightarrow>
               (case py_iter chat_id_list of
                  Inl e \<Rightarrow> Some (Inl e, c1)
                | Inr ids \<Rightarrow>
                    (case fetch_chats c1 ids chats added_chat_ids of
                       None \<Rightarrow> None
                     | Some (Inl e, c2) \<Rightarrow> Some (Inl e, c2)
                     | Some (Inr (chats', added'), c2) \<Rightarrow>
                         if ids \<noteq> [] \<and> \<not> int (length ids) < page_size then
                           (case last_order chats' of
                              Inl e \<Rightarrow> Some (Inl e, c2)
                            | Inr order \<Rightarrow>
                                (case sleep c2 (request_delay c2) of
                                   Inl e \<Rightarrow> Some (Inl e, c2)
                                 | Inr c3 \<Rightarrow> chats_loop c3 page_size order chats' added'))
                         else Some (Inr chats', c2)))))"
  by pat_completeness auto
termination
proof (relation "measure (\<lambda>(c, _, _, _, _). length (incoming c))", goal_cases)
  case 1
  show ?case by simp
next
  case (2 c page_size offset_order chats added x2 x1 c1 result chat_id_list ids y2 x1a c2 x3 chats' added' order c3)
  then show ?case
    by (auto dest!: call_method_consumes fetch_chats_consumes sleep_incoming)
qed

definition get_all_chats :: "client \<Rightarrow> int \<Rightarrow> pydict list result" where
  "get_all_chats c page_size =
     (if page_size \<le> 1 then Some (Inl (TDLibError (Text ''Invalid \"page_size\"'')), c)
      else chats_loop c page_size (JInt (2 ^ 63 - 1)) [] {})"

section \<open>Group members\<close>

definition get_user :: "client \<Rightarrow> json \<Rightarrow> pydict result" where
  "get_user c user_id = call_method c ''getUser'' None [(''user_id'', user_id)]"

text \<open>\<open>chat['type'][key]\<close>\<close>

definition chat_type_item :: "pydict \<Rightarrow> string \<Rightarrow> error + json" where
  "chat_type_item chat key =
     (case dict_item chat ''type'' of Inl e \<Rightarrow> Inl e | Inr ty \<Rightarrow> json_item ty key)"

text \<open>The \<open>for\<close> loop over one page of members.\<close>

fun add_members :: "json list \<Rightarrow> json list \<Rightarrow> json set \<Rightarrow> error + json list \<times> json set" where
  "add_members [] members added_ids = Inr (members, added_ids)"
| "add_members (member # rest) members added_ids =
     (case json_item member ''user_id'' of
        Inl e \<Rightarrow> Inl e
      | Inr user_id \<Rightarrow>
          (case py_key user_id of
             Inl e \<Rightarrow> Inl e
           | Inr key \<Rightarrow>
               if key \<notin> added_ids then add_members rest (members @ [member]) (insert key added_ids)
               else add_members rest members added_ids))"

definition got_members :: "nat \<Rightarrow> nat \<Rightarrow> log_entry" where
  "got_members n k =
     Info (Fmt ''Got %d members. Total: %d'' [JInt (int n), JInt (int k)])"

text \<open>
  The \<open>while\<close> loop of \<open>_get_super_group_members\<close>; it gives the members and the
  \<open>total_count\<close> of the last response.
\<close>

function members_loop ::
  "client \<Rightarrow> pydict \<Rightarrow> int \<Rightarrow> int \<Rightarrow> json list \<Rightarrow> json set \<Rightarrow> (json list \<times> json) result" where
  "members_loop c chat page_size offset members added_ids =
     (case chat_type_item chat ''supergroup_id'' of
        Inl e \<Rightarrow> Some (Inl e, c)
      | Inr supergroup_id \<Rightarrow>
          (case call_method c ''getSupergroupMembers'' None
                  [(''supergroup_id'', supergroup_id), (''offset'', JInt offset),
                   (''limit'', JInt page_size)] of
             None \<Rightarrow> None
           | Some (Inl e, c1) \<Rightarrow> Some (Inl e, c1)
           | Some (Inr response, c1) \<Rightarrow>
               (case dict_item response ''members'' of
                  Inl e \<Rightarrow> Some (Inl e, c1)
                | Inr page \<Rightarrow>
                    (case dict_item response ''total_count'' of
                       Inl e \<Rightarrow> Some (Inl e, c1)
                     | Inr total_count \<Rightarrow>
                         (case py_iter page of
                            Inl e \<Rightarrow> Some (Inl e, c1)
                          | Inr items \<Rightarrow>
                              (case add_members items members added_ids of
                                 Inl e \<Rightarrow> Some (Inl e, c1)
                               | Inr (members', added') \<Rightarrow>
                                   if items \<noteq> [] then
                                     (case sleep c1 (request_delay c1) of
                                        Inl e \<Rightarrow> Some (Inl e, c1)
                                      | Inr c2 \<Rightarrow>
                                          members_loop
                                            (logger c2 (got_members (length items) (length members')))
                                            chat page_size (offset + int (length items))
                                            members' added')
                                   else Some (Inr (members', total_count),
                                          logger c1 (got_members (length items)
                                                       (length members')))))))))"
  by pat_completeness auto
termination
proof (relation "measure (\<lambda>(c, _, _, _, _, _). length (incoming c))", goal_cases)
  case 1
  show ?case by simp
next
  case (2 c chat page_size offset members added_ids supergroup_id x2 x1 c1 response page
      total_count items x members' added' c2)
  then show ?case
    by (auto simp: logger_def dest!: call_method_consumes sleep_incoming)
qed

definition count_mismatch :: "json \<Rightarrow> nat \<Rightarrow> log_entry" where
  "count_mismatch total_count n =
     Warning (Fmt ''total_count != len(members):  %s/%s'' [total_count, JInt (int n)])"

definition get_super_group_members :: "client \<Rightarrow> pydict \<Rightarrow> int \<Rightarrow> json list result" where
  "get_super_group_members c chat page_size =
     (if page_size \<le> 1 then Some (Inl (TDLibError (Text ''Invalid \"page_size\"'')), c)
      else (case members_loop c chat page_size 0 [] {} of
              None \<Rightarrow> None
            | Some (Inl e, c1) \<Rightarrow> Some (Inl e, c1)
            | Some (Inr (members, total_count), c1) \<Rightarrow>
                Some (Inr members,
                  if py_ne_int total_count (int (length members))
                  then logger c1 (count_mismatch total_count (length members)) else c1)))"

text \<open>\<open>[self.get_user(m['user_id']) for m in members]\<close>\<close>

fun get_users :: "client \<Rightarrow> json list \<Rightarrow> pydict list result" where
  "get_users c [] = Some (Inr [], c)"
| "get_users c (m # rest) =
     (case json_item m ''user_id'' of
        Inl e \<Rightarrow> Some (Inl e, c)
      | Inr user_id \<Rightarrow>
          (case get_user c user_id of
             None \<Rightarrow> None
           | Some (Inl e, c1) \<Rightarrow> Some (Inl e, c1)
           | Some (Inr user, c1) \<Rightarrow>
               (case get_users c1 rest of
                  None \<Rightarrow> None
                | Some (Inl e, c2) \<Rightarrow> Some (Inl e, c2)
                | Some (Inr users, c2) \<Rightarrow> Some (Inr (user # users), c2))))"

text \<open>The members of the chat, by the kind of group: the \<open>if\<close> / \<open>elif\<close> / \<open>else\<close>.\<close>

definition group_members :: "client \<Rightarrow> pydict \<Rightarrow> int \<Rightarrow> json list result" where
  "group_members c chat page_size =
     (case chat_type_item chat ''@type'' of
        Inl e \<Rightarrow> Some (Inl e, c)
      | Inr ty \<Rightarrow>
          if ty = JStr ''chatTypeBasicGroup'' then
            (case chat_type_item chat ''basic_group_id'' of
               Inl e \<Rightarrow> Some (Inl e, c)
             | Inr basic_group_id \<Rightarrow>
                 (case call_method c ''getBasicGroupFullInfo'' None
                         [(''basic_group_id'', basic_group_id)] of
                    None \<Rightarrow> None
                  | Some (Inl e, c1) \<Rightarrow> Some (Inl e, c1)
                  | Some (Inr info, c1) \<Rightarrow>
                      (case dict_item info ''members'' of
                         Inl e \<Rightarrow> Some (Inl e, c1)
                       | Inr members \<Rightarrow>
                           (case py_iter members of
                              Inl e \<Rightarrow> Some (Inl e, c1)
                            | Inr ms \<Rightarrow> Some (Inr ms, c1)))))
          else if ty = JStr ''chatTypeSupergroup'' then get_super_group_members c chat page_size
          else Some (Inl (TDLibError (Fmt ''Unknown group type: %s'' [ty])), c))"

definition get_group_members :: "client \<Rightarrow> int \<Rightarrow> int \<Rightarrow> pydict list result" where
  "get_group_members c group_id page_size =
     (case call_method c ''getChat'' None [(''chat_id'', JInt group_id)] of
        None \<Rightarrow> None
      | Some (Inl e, c1) \<Rightarrow> Some (Inl e, c1)
      | Some (Inr chat, c1) \<Rightarrow>
          (case group_members c1 chat page_size of
             None \<Rightarrow> None
           | Some (Inl e, c2) \<Rightarrow> Some (Inl e, c2)
           | Some (Inr members, c2) \<Rightarrow> get_users c2 members))"

section \<open>Notions used in the statements\<close>





text \<open>The time taken by the first \<open>k\<close> polls.\<close>

definition elapsed :: "(pydict option \<times> real) list \<Rightarrow> nat \<Rightarrow> real" where
  "elapsed polls k = sum_list (map snd (take k polls))"

text \<open>
  A poll that cannot be taken for the answer to \<open>request_id\<close>: nothing was received, or
  the envelope's correlation identifier can be read and is a different value (\<open>None\<close>
  when the envelope has none).
\<close>

definition no_match :: "string \<Rightarrow> pydict option \<Rightarrow> bool" where
  "no_match request_id response =
     (case response of
        None \<Rightarrow> True
      | Some r \<Rightarrow> (case received_request_id r of Inl e \<Rightarrow> False | Inr x \<Rightarrow> x \<noteq> JStr request_id))"

text \<open>The timeout test of the polling loop, on an elapsed time.\<close>

definition expired :: "real option \<Rightarrow> real \<Rightarrow> bool" where
  "expired timeout el = (case timeout of None \<Rightarrow> False | Some t \<Rightarrow> t \<noteq> 0 \<and> t < el)"

text \<open>The set key of a hashable value.\<close>

definition the_key :: "json \<Rightarrow> json" where
  "the_key v = (case v of JBool b \<Rightarrow> JInt (if b then 1 else 0) | _ \<Rightarrow> v)"

text \<open>
  The identifiers of \<open>xs\<close> whose key is not in \<open>added\<close>, each key once, where it first
  occurs.
\<close>

fun new_ids :: "json set \<Rightarrow> json list \<Rightarrow> json list" where
  "new_ids added [] = []"
| "new_ids added (x # xs) =
     (if the_key x \<in> added then new_ids added xs else x # new_ids (insert (the_key x) added) xs)"

definition full_page :: "int \<Rightarrow> json list \<Rightarrow> bool" where
  "full_page page_size ids = (ids \<noteq> [] \<and> \<not> int (length ids) < page_size)"

text \<open>
  From \<open>c\<close> to \<open>c'\<close> some polls were used up, and the clock moved by the time they took
  and by \<open>d\<close> more.
\<close>

definition advanced :: "client \<Rightarrow> client \<Rightarrow> real \<Rightarrow> bool" where
  "advanced c c' d =
     (\<exists>k\<le>length (incoming c). incoming c' = drop k (incoming c)
        \<and> clock c' = clock c + elapsed (incoming c) k + d)"

text \<open>
  An exchange is one call of \<open>call_method\<close> that came back with a result: the method
  name, the parameters, and the envelope returned.
\<close>

type_synonym exchange = "string \<times> pydict \<times> pydict"

text \<open>
  The envelopes that a list of exchanges puts on the channel, the first of them with the
  \<open>n\<close>-th identifier drawn, the next with the following one, and so on.
\<close>

fun requests :: "(nat \<Rightarrow> string) \<Rightarrow> nat \<Rightarrow> exchange list \<Rightarrow> pydict list" where
  "requests src n [] = []"
| "requests src n ((m, ps, r) # xs) = request_data m (src n) ps # requests src (Suc n) xs"

text \<open>An envelope with a type tag other than \<open>error\<close>.\<close>

definition is_result :: "pydict \<Rightarrow> bool" where
  "is_result r = (case map_of r ''@type'' of None \<Rightarrow> False | Some ty \<Rightarrow> ty \<noteq> JStr ''error'')"

text \<open>
  The timeout \<open>T\<close> has not expired after any of the polls, \<open>el\<close> being the time already
  spent waiting.
\<close>

fun in_time :: "real option \<Rightarrow> real \<Rightarrow> (pydict option \<times> real) list \<Rightarrow> bool" where
  "in_time T el [] = True"
| "in_time T el ((e, dt) # polls) = (\<not> expired T (el + dt) \<and> in_time T (el + dt) polls)"

text \<open>
  The polls \<open>polls\<close> answer the exchanges one after the other and leave \<open>rest\<close>: for each
  exchange the channel first gives polls that cannot be taken for the answer to its
  identifier, during which the timeout does not expire, and then the envelope of the
  exchange, which carries that identifier and is not an error.
\<close>

fun answered ::
  "real option \<Rightarrow> (nat \<Rightarrow> string) \<Rightarrow> nat \<Rightarrow> exchange list \<Rightarrow>
   (pydict option \<times> real) list \<Rightarrow> (pydict option \<times> real) list \<Rightarrow> bool" where
  "answered T src n [] polls rest = (polls = rest)"
| "answered T src n ((m, ps, r) # xs) polls rest =
     (in_time T 0 (takeWhile (\<lambda>p. no_match (src n) (fst p)) polls)
      \<and> (case dropWhile (\<lambda>p. no_match (src n) (fst p)) polls of
            [] \<Rightarrow> False
          | (e, dt) # mid \<Rightarrow>
              e = Some r \<and> received_request_id r = Inr (JStr (src n)) \<and> is_result r
              \<and> answered T src (Suc n) xs mid rest))"

text \<open>
  Between the states \<open>c\<close> and \<open>c'\<close> the client had exactly the exchanges \<open>xs\<close> with the
  channel: their requests are what was sent, in this order and with the identifiers drawn
  from \<open>c\<close> on, and the polls used up in between are those that answer them.
\<close>

definition conversation :: "client \<Rightarrow> client \<Rightarrow> exchange list \<Rightarrow> bool" where
  "conversation c c' xs =
     (sent c' = sent c @ requests (uuid_source c) (uuid_count c) xs
      \<and> answered (request_timeout c) (uuid_source c) (uuid_count c) xs (incoming c) (incoming c'))"

text \<open>What a call, a pause and a log record leave as it was.\<close>

definition same_setup :: "client \<Rightarrow> client \<Rightarrow> bool" where
  "same_setup c c' =
     (uuid_source c' = uuid_source c \<and> request_timeout c' = request_timeout c
      \<and> request_delay c' = request_delay c)"

text \<open>
  A conversation together with the bookkeeping needed to chain it with the next one: the
  identifiers drawn, the setup, and the clock.
\<close>

definition run :: "client \<Rightarrow> client \<Rightarrow> exchange list \<Rightarrow> real \<Rightarrow> bool" where
  "run c c' xs d =
     (conversation c c' xs \<and> uuid_count c' = uuid_count c + length xs \<and> same_setup c c'
      \<and> advanced c c' d)"

text \<open>A value that can be put into a \<open>set\<close>.\<close>

definition hashable :: "json \<Rightarrow> bool" where
  "hashable v = (case v of JList _ \<Rightarrow> False | JObj _ \<Rightarrow> False | _ \<Rightarrow> True)"

text \<open>
  One page of a chat listing: the cursor of its \<open>getChats\<close> request, the envelope that
  answered it, the identifiers of that envelope, and the lookups made for the page, each
  an identifier asked for with \<open>getChat\<close> and the chat returned.
\<close>

record page =
  page_cursor :: json
  page_answer :: pydict
  page_ids :: "json list"
  page_lookups :: "(json \<times> pydict) list"

definition lookup_exchange :: "json \<times> pydict \<Rightarrow> exchange" where
  "lookup_exchange l = (''getChat'', [(''chat_id'', fst l)], snd l)"

definition page_exchanges :: "int \<Rightarrow> page \<Rightarrow> exchange list" where
  "page_exchanges page_size p =
     (''getChats'',
      [(''offset_order'', page_cursor p), (''offset_chat_id'', JInt 0),
       (''limit'', JInt page_size)],
      page_answer p)
     # map lookup_exchange (page_lookups p)"

definition listing_exchanges :: "int \<Rightarrow> page list \<Rightarrow> exchange list" where
  "listing_exchanges page_size trace = concat (map (page_exchanges page_size) trace)"

text \<open>The identifiers of the pages before page \<open>i\<close>, and the chats looked up for them.\<close>

definition ids_before :: "page list \<Rightarrow> nat \<Rightarrow> json list" where
  "ids_before trace i = concat (map page_ids (take i trace))"

definition chats_before :: "page list \<Rightarrow> nat \<Rightarrow> pydict list" where
  "chats_before trace i = map snd (concat (map page_lookups (take i trace)))"

text \<open>
  The cursor that page \<open>i\<close> is to be asked with: the starting cursor for the first page,
  and after that the \<open>order\<close> field of the last chat accumulated so far (\<open>chats\<close> are
  those accumulated before the first page).
\<close>

definition cursor_at :: "json \<Rightarrow> pydict list \<Rightarrow> page list \<Rightarrow> nat \<Rightarrow> json option" where
  "cursor_at start chats trace i =
     (if i = 0 then Some start
      else if chats @ chats_before trace i = [] then None
      else map_of (last (chats @ chats_before trace i)) ''order'')"

text \<open>
  The pages of a chat listing that starts with the cursor \<open>start\<close>, the chats \<open>chats\<close>
  and the keys \<open>added\<close>: every page is asked with the cursor due; its identifiers are the
  \<open>chat_ids\<close> of its answer and can be hashed; its lookups are for the identifiers not
  seen before, each once, in the order of the page; and a page is followed by another
  one exactly when it is non-empty and not shorter than the page size.
\<close>

definition well_paged :: "int \<Rightarrow> json \<Rightarrow> pydict list \<Rightarrow> json set \<Rightarrow> page list \<Rightarrow> bool" where
  "well_paged page_size start chats added trace =
     (trace \<noteq> []
      \<and> (\<forall>i<length trace.
            cursor_at start chats trace i = Some (page_cursor (trace ! i))
          \<and> (\<exists>l. map_of (page_answer (trace ! i)) ''chat_ids'' = Some l
                 \<and> py_iter l = Inr (page_ids (trace ! i)))
          \<and> (\<forall>x \<in> set (page_ids (trace ! i)). hashable x)
          \<and> map fst (page_lookups (trace ! i))
              = new_ids (added \<union> the_key ` set (ids_before trace i)) (page_ids (trace ! i))
          \<and> (Suc i < length trace) = full_page page_size (page_ids (trace ! i))))"

text \<open>The \<open>user_id\<close> of a member, when the member is a dictionary that has one.\<close>

definition user_id_of :: "json \<Rightarrow> json option" where
  "user_id_of m = (case m of JObj d \<Rightarrow> map_of d ''user_id'' | _ \<Rightarrow> None)"

definition user_id :: "json \<Rightarrow> json" where
  "user_id m = (case user_id_of m of Some u \<Rightarrow> u | None \<Rightarrow> JNull)"

text \<open>The set key of a member's \<open>user_id\<close>.\<close>

definition member_key :: "json \<Rightarrow> json" where
  "member_key m = the_key (user_id m)"

text \<open>A member whose \<open>user_id\<close> can be read and put into a \<open>set\<close>.\<close>

definition identified :: "json \<Rightarrow> bool" where
  "identified m = (case user_id_of m of Some u \<Rightarrow> hashable u | None \<Rightarrow> False)"

text \<open>
  The members of \<open>xs\<close> whose user identifier has a key not in \<open>added\<close>, each key once,
  where it first occurs.
\<close>

fun new_members :: "json set \<Rightarrow> json list \<Rightarrow> json list" where
  "new_members added [] = []"
| "new_members added (m # ms) =
     (if member_key m \<in> added then new_members added ms
      else m # new_members (insert (member_key m) added) ms)"

text \<open>
  One page of a member listing: the envelope that answered the \<open>getSupergroupMembers\<close>
  request and the members it holds.
\<close>

record member_page =
  mp_answer :: pydict
  mp_items :: "json list"

text \<open>The members received in the pages before page \<open>i\<close>.\<close>

definition items_before :: "member_page list \<Rightarrow> nat \<Rightarrow> json list" where
  "items_before trace i = concat (map mp_items (take i trace))"

text \<open>
  The requests of the pages: page \<open>i\<close> is asked at the offset \<open>start\<close> plus the number of
  members received in the pages before it, with the limit \<open>page_size\<close>.
\<close>

definition member_exchanges :: "json \<Rightarrow> int \<Rightarrow> int \<Rightarrow> member_page list \<Rightarrow> exchange list" where
  "member_exchanges supergroup_id page_size start trace =
     map (\<lambda>i. (''getSupergroupMembers'',
                [(''supergroup_id'', supergroup_id),
                 (''offset'', JInt (start + int (length (items_before trace i)))),
                 (''limit'', JInt page_size)],
                mp_answer (trace ! i)))
       [0..<length trace]"

text \<open>The members accumulated from \<open>members\<close> and the keys \<open>added\<close> over the items \<open>xs\<close>.\<close>

definition accumulated :: "json list \<Rightarrow> json set \<Rightarrow> json list \<Rightarrow> json list" where
  "accumulated members added xs = members @ new_members added xs"

text \<open>The records logged for the pages: the size of each page and the members so far.\<close>

definition member_log :: "json list \<Rightarrow> json set \<Rightarrow> member_page list \<Rightarrow> log_entry list" where
  "member_log members added trace =
     map (\<lambda>i. got_members (length (mp_items (trace ! i)))
                (length (accumulated members added (items_before trace (Suc i)))))
       [0..<length trace]"

text \<open>
  The pages of a member listing: the items of every page are the \<open>members\<close> of its
  answer, each with a \<open>user_id\<close> that can be hashed; the answer has a \<open>total_count\<close>;
  and a page is followed by another one exactly when it is not empty.
\<close>

definition well_membered :: "member_page list \<Rightarrow> bool" where
  "well_membered trace =
     (trace \<noteq> []
      \<and> (\<forall>i<length trace.
            (\<exists>l. map_of (mp_answer (trace ! i)) ''members'' = Some l
                 \<and> py_iter l = Inr (mp_items (trace ! i)))
          \<and> map_of (mp_answer (trace ! i)) ''total_count'' \<noteq> None
          \<and> (\<forall>m \<in> set (mp_items (trace ! i)). identified m)
          \<and> (Suc i < length trace) = (mp_items (trace ! i) \<noteq> [])))"

text \<open>The lookups of the users of the members, one \<open>getUser\<close> request for each in turn.\<close>

definition user_exchanges :: "json list \<Rightarrow> pydict list \<Rightarrow> exchange list" where
  "user_exchanges members users =
     map (\<lambda>(m, u). (''getUser'', [(''user_id'', user_id m)], u)) (zip members users)"

text \<open>The warning logged when the reported total differs from the number of members.\<close>

definition mismatch_log :: "json \<Rightarrow> nat \<Rightarrow> log_entry list" where
  "mismatch_log total_count n =
     (if py_ne_int total_count (int n) then [count_mismatch total_count n] else [])"

text \<open>A client for the examples: identifiers \<open>a\<close>, \<open>aa\<close>, \<open>aaa\<close>, ... and a given channel.\<close>

definition uuid_of :: "nat \<Rightarrow> string" where
  "uuid_of n = replicate (Suc n) (CHR ''a'')"

definition test_client :: "real option \<Rightarrow> (pydict option \<times> real) list \<Rightarrow> client" where
  "test_client default_timeout polls =
     \<lparr>request_timeout = default_timeout, request_delay = 1 / 2, sent = [], incoming = polls,
      clock = 0, uuid_source = uuid_of, uuid_count = 0, log = []\<rparr>"

text \<open>Envelopes for the examples: an update, the answer to another request, an answer to \<open>a\<close>.\<close>

definition unrelated_update :: pydict where
  "unrelated_update = [(''@type'', JStr ''updateOption''), (''name'', JStr ''version'')]"

definition other_answer :: pydict where
  "other_answer = [(''@type'', JStr ''ok''), (''@extra'', JObj [(''request_id'', JStr ''zz'')])]"

definition me_answer :: pydict where
  "me_answer = [(''@type'', JStr ''user''), (''id'', JInt 7),
                (''@extra'', JObj [(''request_id'', JStr ''a'')])]"

text \<open>An envelope whose \<open>@extra\<close> is a string, not a dictionary.\<close>

definition malformed_extra :: pydict where
  "malformed_extra = [(''@type'', JStr ''ok''), (''@extra'', JStr ''abc'')]"

text \<open>The answer to the first request, reporting the state \<open>WaitPassword\<close>.\<close>

definition wait_password_answer :: pydict where
  "wait_password_answer =
     [(''@type'', JStr ''authorizationStateWaitPassword''),
      (''@extra'', JObj [(''request_id'', JStr ''a'')])]"

text \<open>The answer to a \<open>getChat\<close> request for a chat of a given kind.\<close>

definition group_chat_answer :: "string \<Rightarrow> pydict" where
  "group_chat_answer kind =
     [(''@type'', JStr ''chat''), (''id'', JInt 5),
      (''type'', JObj [(''@type'', JStr kind), (''supergroup_id'', JInt 9)]),
      (''@extra'', JObj [(''request_id'', JStr ''a'')])]"

text \<open>
  A channel that answers a chat listing with two pages that share the identifier 2: a
  full page, the two chats, and a short page.
\<close>

definition chat_ids_answer :: "string \<Rightarrow> int list \<Rightarrow> pydict" where
  "chat_ids_answer rid ids =
     [(''@type'', JStr ''chats''), (''chat_ids'', JList (map JInt ids)),
      (''@extra'', JObj [(''request_id'', JStr rid)])]"

definition chat_answer :: "string \<Rightarrow> int \<Rightarrow> int \<Rightarrow> pydict" where
  "chat_answer rid i ord =
     [(''@type'', JStr ''chat''), (''id'', JInt i), (''order'', JInt ord),
      (''@extra'', JObj [(''request_id'', JStr rid)])]"

definition two_pages :: "(pydict option \<times> real) list" where
  "two_pages =
     [(Some (chat_ids_answer ''a'' [1, 2]), 1), (Some (chat_answer ''aa'' 1 20), 1),
      (Some (chat_answer ''aaa'' 2 10), 1), (Some (chat_ids_answer ''aaaa'' [2]), 1)]"

definition two_pages_trace :: "page list" where
  "two_pages_trace =
     [\<lparr>page_cursor = JInt (2 ^ 63 - 1), page_answer = chat_ids_answer ''a'' [1, 2],
       page_ids = [JInt 1, JInt 2],
       page_lookups = [(JInt 1, chat_answer ''aa'' 1 20), (JInt 2, chat_answer ''aaa'' 2 10)]\<rparr>,
      \<lparr>page_cursor = JInt 10, page_answer = chat_ids_answer ''aaaa'' [2],
       page_ids = [JInt 2], page_lookups = []\<rparr>]"

text \<open>
  A channel that answers a member listing of a supergroup: the chat, a page of three
  members of which the third has the user of the first, an empty page, and the two users.
  The total reported is 5.
\<close>

definition member_of :: "int \<Rightarrow> string \<Rightarrow> json" where
  "member_of uid status = JObj [(''@type'', JStr ''chatMember''), (''user_id'', JInt uid),
                                (''status'', JStr status)]"

definition members_answer :: "string \<Rightarrow> json list \<Rightarrow> int \<Rightarrow> pydict" where
  "members_answer rid ms n =
     [(''@type'', JStr ''chatMembers''), (''total_count'', JInt n), (''members'', JList ms),
      (''@extra'', JObj [(''request_id'', JStr rid)])]"

definition user_answer :: "string \<Rightarrow> int \<Rightarrow> pydict" where
  "user_answer rid uid =
     [(''@type'', JStr ''user''), (''id'', JInt uid),
      (''@extra'', JObj [(''request_id'', JStr rid)])]"

definition supergroup_polls :: "(pydict option \<times> real) list" where
  "supergroup_polls =
     [(Some (group_chat_answer ''chatTypeSupergroup''), 1),
      (Some (members_answer ''aa''
               [member_of 1 ''creator'', member_of 2 ''member'', member_of 1 ''left''] 5), 1),
      (Some (members_answer ''aaa'' [] 5), 1),
      (Some (user_answer ''aaaa'' 1), 1), (Some (user_answer ''aaaaa'' 2), 1)]"

definition supergroup_trace :: "member_page list" where
  "supergroup_trace =
     [\<lparr>mp_answer = members_answer ''aa''
          [member_of 1 ''creator'', member_of 2 ''member'', member_of 1 ''left''] 5,
       mp_items = [member_of 1 ''creator'', member_of 2 ''member'', member_of 1 ''left'']\<rparr>,
      \<lparr>mp_answer = members_answer ''aaa'' [] 5, mp_items = []\<rparr>]"

text \<open>A channel that answers a member listing of a basic group with two members.\<close>

definition basic_chat_answer :: pydict where
  "basic_chat_answer =
     [(''@type'', JStr ''chat''), (''id'', JInt 5),
      (''type'', JObj [(''@type'', JStr ''chatTypeBasicGroup''), (''basic_group_id'', JInt 4)]),
      (''@extra'', JObj [(''request_id'', JStr ''a'')])]"

definition basic_info_answer :: pydict where
  "basic_info_answer =
     [(''@type'', JStr ''basicGroupFullInfo''),
      (''members'', JList [member_of 1 ''creator'', member_of 2 ''member'']),
      (''@extra'', JObj [(''request_id'', JStr ''aa'')])]"

definition basic_polls :: "(pydict option \<times> real) list" where
  "basic_polls =
     [(Some basic_chat_answer, 1), (Some basic_info_answer, 1),
      (Some (user_answer ''aaa'' 1), 1), (Some (user_answer ''aaaa'' 2), 1)]"

section \<open>The error classifier: order of the rules\<close>



section \<open>The polling loop\<close>

lemma no_match_poll_step: "no_match rid e \<Longrightarrow> poll_step rid e = Inr None"
  by (auto simp: poll_step_def no_match_def split: option.splits sum.splits)

lemma elapsed_Cons: "elapsed ((e, dt) # rest) (Suc k) = dt + elapsed rest k"
  by (simp add: elapsed_def)

lemma wait_loop_timeout:
  assumes "incoming c = polls" and "T \<noteq> 0"
    and "\<forall>p \<in> set polls. no_match rid (fst p)"
    and "k < length polls" and "T < clock c - st + elapsed polls (Suc k)"
  shows "\<exists>n c'. n \<le> k \<and> T < clock c - st + elapsed polls (Suc n)
           \<and> (\<forall>j<n. \<not> T < clock c - st + elapsed polls (Suc j))
           \<and> wait_loop c rid (Some T) st = Some (Inl (UnknownError (Text ''TimeOutError'')), c')
           \<and> incoming c' = drop (Suc n) polls \<and> sent c' = sent c"
  using assms
proof (induction polls arbitrary: c k)
  case Nil
  then show ?case by simp
next
  case (Cons p rest)
  obtain e dt where p: "p = (e, dt)" by (cases p)
  let ?c1 = "c\<lparr>incoming := rest, clock := clock c + dt\<rparr>"
  have ps: "poll_step rid e = Inr None"
    using Cons.prems(3) p by (simp add: no_match_poll_step)
  note eq = wait_loop_Cons [OF Cons.prems(1) [unfolded p], of rid "Some T" st]
  show ?case
  proof (cases "T < clock c - st + dt")
    case True
    then have "timed_out ?c1 (Some T) st"
      using Cons.prems(2) by (simp add: timed_out_def)
    with eq ps have "wait_loop c rid (Some T) st =
        Some (Inl (UnknownError (Text ''TimeOutError'')), ?c1)" by simp
    with True show ?thesis
      by (intro exI [of _ 0] exI [of _ ?c1]) (simp add: p elapsed_def)
  next
    case False
    then have nt: "\<not> timed_out ?c1 (Some T) st"
      by (simp add: timed_out_def)
    with eq ps have w: "wait_loop c rid (Some T) st = wait_loop ?c1 rid (Some T) st" by simp
    from False Cons.prems(5) p obtain k' where k': "k = Suc k'"
      by (cases k) (auto simp: elapsed_def)
    have "\<exists>n c'. n \<le> k' \<and> T < clock ?c1 - st + elapsed rest (Suc n)
           \<and> (\<forall>j<n. \<not> T < clock ?c1 - st + elapsed rest (Suc j))
           \<and> wait_loop ?c1 rid (Some T) st = Some (Inl (UnknownError (Text ''TimeOutError'')), c')
           \<and> incoming c' = drop (Suc n) rest \<and> sent c' = sent ?c1"
      using Cons.prems k' p
      by (intro Cons.IH) (simp_all add: elapsed_Cons add.assoc)
    then obtain n c' where n: "n \<le> k'" "T < clock ?c1 - st + elapsed rest (Suc n)"
      "\<forall>j<n. \<not> T < clock ?c1 - st + elapsed rest (Suc j)"
      "wait_loop ?c1 rid (Some T) st = Some (Inl (UnknownError (Text ''TimeOutError'')), c')"
      "incoming c' = drop (Suc n) rest" "sent c' = sent ?c1"
      by blast
    have "\<forall>j<Suc n. \<not> T < clock c - st + elapsed (p # rest) (Suc j)"
    proof (intro allI impI)
      fix j assume "j < Suc n"
      show "\<not> T < clock c - st + elapsed (p # rest) (Suc j)"
      proof (cases j)
        case 0
        with False p show ?thesis by (simp add: elapsed_def)
      next
        case (Suc j')
        with \<open>j < Suc n\<close> n(3) have "\<not> T < clock ?c1 - st + elapsed rest (Suc j')"
          by simp
        then show ?thesis using Suc p
          by (simp add: elapsed_Cons algebra_simps)
      qed
    qed
    then show ?thesis using n w k' p
      by (intro exI [of _ "Suc n"] exI [of _ c']) (simp add: elapsed_Cons add.assoc)
  qed
qed

lemma poll_step_not_timeout:
  "poll_step rid e = Inl err \<Longrightarrow> err \<noteq> UnknownError (Text ''TimeOutError'')"
  by (auto simp: poll_step_def handle_errors_def received_request_id_def json_get_def
        dict_item_def exc_msg_def Let_def
      split: option.splits if_splits sum.splits json.splits)

lemma wait_loop_no_timeout:
  assumes "incoming c = polls" and "\<not> truthy T"
  shows "wait_loop c rid T st \<noteq> Some (Inl (UnknownError (Text ''TimeOutError'')), c')"
  using assms
proof (induction polls arbitrary: c)
  case Nil
  then show ?case by (simp add: wait_loop_Nil)
next
  case (Cons p rest)
  obtain e dt where p: "p = (e, dt)" by (cases p)
  let ?c1 = "c\<lparr>incoming := rest, clock := clock c + dt\<rparr>"
  have nt: "\<not> timed_out ?c1 T st"
    using Cons.prems(2) by (simp add: timed_out_def truthy_def split: option.splits)
  have ih: "wait_loop ?c1 rid T st \<noteq> Some (Inl (UnknownError (Text ''TimeOutError'')), c')"
    using Cons.prems(2) by (intro Cons.IH) simp_all
  show ?case
    using wait_loop_Cons [OF Cons.prems(1) [unfolded p], of rid T st] nt ih
    by (auto split: sum.splits option.splits dest: poll_step_not_timeout)
qed

lemma wait_loop_forever:
  assumes "incoming c = polls" and "\<not> truthy T"
    and "\<forall>p \<in> set polls. no_match rid (fst p)"
  shows "wait_loop c rid T st = None"
  using assms
proof (induction polls arbitrary: c)
  case Nil
  then show ?case by (simp add: wait_loop_Nil)
next
  case (Cons p rest)
  obtain e dt where p: "p = (e, dt)" by (cases p)
  let ?c1 = "c\<lparr>incoming := rest, clock := clock c + dt\<rparr>"
  have nt: "\<not> timed_out ?c1 T st"
    using Cons.prems(2) by (simp add: timed_out_def truthy_def split: option.splits)
  have ps: "poll_step rid e = Inr None"
    using Cons.prems(3) p by (simp add: no_match_poll_step)
  have ih: "wait_loop ?c1 rid T st = None"
    using Cons.prems by (intro Cons.IH) simp_all
  show ?case
    using wait_loop_Cons [OF Cons.prems(1) [unfolded p], of rid T st] nt ih ps by simp
qed

lemma wait_loop_default_irrelevant:
  assumes "incoming c = polls"
  shows "wait_loop (c\<lparr>request_timeout := d\<rparr>) rid T st =
         map_option (\<lambda>(r, c'). (r, c'\<lparr>request_timeout := d\<rparr>)) (wait_loop c rid T st)"
  using assms
proof (induction polls arbitrary: c)
  case Nil
  then show ?case by (simp add: wait_loop_Nil)
next
  case (Cons p rest)
  obtain e dt where p: "p = (e, dt)" by (cases p)
  define c1 where "c1 = c\<lparr>incoming := rest, clock := clock c + dt\<rparr>"
  define d1 where "d1 = c1\<lparr>request_timeout := d\<rparr>"
  have i: "incoming (c\<lparr>request_timeout := d\<rparr>) = (e, dt) # rest"
    using Cons.prems p by simp
  have e1: "c\<lparr>request_timeout := d\<rparr>\<lparr>incoming := rest,
      clock := clock (c\<lparr>request_timeout := d\<rparr>) + dt\<rparr> = d1"
    by (simp add: d1_def c1_def)
  have ih: "wait_loop d1 rid T st =
         map_option (\<lambda>(r, c'). (r, c'\<lparr>request_timeout := d\<rparr>)) (wait_loop c1 rid T st)"
    unfolding d1_def by (intro Cons.IH) (simp add: c1_def)
  have to: "timed_out d1 T st = timed_out c1 T st"
    by (cases T) (simp_all add: timed_out_def d1_def)
  note L = wait_loop_Cons [OF i, of rid T st, unfolded e1]
  note R = wait_loop_Cons [OF Cons.prems(1) [unfolded p], of rid T st, folded c1_def]
  show ?case
  proof (cases "poll_step rid e")
    case (Inl err)
    then show ?thesis using L R by (simp add: d1_def)
  next
    case (Inr o1)
    show ?thesis
    proof (cases o1)
      case None
      then show ?thesis using L R Inr ih to by (simp add: d1_def)
    next
      case (Some r)
      then show ?thesis using L R Inr by (simp add: d1_def)
    qed
  qed
qed

lemma poll_step_Some:
  "poll_step rid e = Inr (Some r) \<Longrightarrow>
   e = Some r \<and> r \<noteq> [] \<and> received_request_id r = Inr (JStr rid) \<and> handle_errors r = Inr ()"
  by (auto simp: poll_step_def split: option.splits if_splits sum.splits)

lemma wait_loop_returns:
  "wait_loop c rid T st = Some (Inr resp, c') \<Longrightarrow>
   \<exists>n dt. n < length (incoming c) \<and> incoming c ! n = (Some resp, dt)
        \<and> incoming c' = drop (Suc n) (incoming c)
        \<and> (\<forall>j<n. poll_step rid (fst (incoming c ! j)) = Inr None)
        \<and> received_request_id resp = Inr (JStr rid) \<and> handle_errors resp = Inr ()
        \<and> sent c' = sent c"
proof (induction c rid T st rule: wait_loop.induct)
  case (1 c rid T st)
  show ?case
  proof (cases "incoming c")
    case Nil
    with "1.prems" show ?thesis by (simp add: wait_loop_Nil)
  next
    case (Cons p rest)
    obtain e dt where p: "p = (e, dt)" by (cases p)
    let ?c1 = "c\<lparr>incoming := rest, clock := clock c + dt\<rparr>"
    have rc: "receive c = Some (e, ?c1)" using Cons p by (simp add: receive_def)
    note eq = wait_loop_Cons [OF Cons [unfolded p], of rid T st]
    show ?thesis
    proof (cases "poll_step rid e")
      case (Inl err)
      with eq "1.prems" show ?thesis by simp
    next
      case (Inr o1)
      show ?thesis
      proof (cases o1)
        case (Some r)
        with Inr eq "1.prems" have r: "r = resp" "c' = ?c1" by simp_all
        from poll_step_Some [OF Inr [unfolded Some]] r
        have "e = Some resp" "received_request_id resp = Inr (JStr rid)" "handle_errors resp = Inr ()"
          by simp_all
        then show ?thesis using Cons p r
          by (intro exI [of _ 0] exI [of _ dt]) simp
      next
        case None
        with Inr eq "1.prems" have nt: "\<not> timed_out ?c1 T st"
          and w: "wait_loop ?c1 rid T st = Some (Inr resp, c')"
          by (simp_all split: if_splits)
        from "1.IH" [OF rc refl Inr None nt w]
        obtain n dt' where n: "n < length rest" "rest ! n = (Some resp, dt')"
          "incoming c' = drop (Suc n) rest"
          "\<forall>j<n. poll_step rid (fst (rest ! j)) = Inr None"
          "received_request_id resp = Inr (JStr rid)" "handle_errors resp = Inr ()"
          "sent c' = sent c"
          by auto
        have "\<forall>j<Suc n. poll_step rid (fst (incoming c ! j)) = Inr None"
          using n(4) Inr None Cons p by (auto simp: less_Suc_eq_0_disj)
        then show ?thesis using n Cons p
          by (intro exI [of _ "Suc n"] exI [of _ dt']) simp
      qed
    qed
  qed
qed

lemma timed_out_expired: "timed_out c T st = expired T (clock c - st)"
  by (simp add: timed_out_def expired_def)

lemma wait_loop_skip:
  assumes "incoming c = pre @ rest"
    and "\<forall>p \<in> set pre. no_match rid (fst p)"
    and "\<forall>k<length pre. \<not> expired T (clock c - st + elapsed pre (Suc k))"
  shows "wait_loop c rid T st =
         wait_loop (c\<lparr>incoming := rest, clock := clock c + elapsed pre (length pre)\<rparr>) rid T st"
  using assms
proof (induction pre arbitrary: c)
  case Nil
  have "c\<lparr>incoming := rest, clock := clock c\<rparr> = c" using Nil.prems(1) by simp
  then show ?case by (simp add: elapsed_def)
next
  case (Cons p pre)
  obtain e dt where p: "p = (e, dt)" by (cases p)
  define c1 where "c1 = c\<lparr>incoming := pre @ rest, clock := clock c + dt\<rparr>"
  have ps: "poll_step rid e = Inr None"
    using Cons.prems(2) p by (simp add: no_match_poll_step)
  have "\<not> expired T (clock c - st + elapsed (p # pre) (Suc 0))"
    using Cons.prems(3) by blast
  then have nt: "\<not> timed_out c1 T st"
    by (simp add: timed_out_expired c1_def p elapsed_def algebra_simps)
  have i: "incoming c = (e, dt) # (pre @ rest)" using Cons.prems(1) p by simp
  have w: "wait_loop c rid T st = wait_loop c1 rid T st"
    using wait_loop_Cons [OF i, of rid T st, folded c1_def] ps nt by simp
  have ex: "\<forall>k<length pre. \<not> expired T (clock c1 - st + elapsed pre (Suc k))"
  proof (intro allI impI)
    fix k assume "k < length pre"
    then have "\<not> expired T (clock c - st + elapsed (p # pre) (Suc (Suc k)))"
      using Cons.prems(3) by simp
    then show "\<not> expired T (clock c1 - st + elapsed pre (Suc k))"
      by (simp add: c1_def p elapsed_Cons algebra_simps)
  qed
  have "wait_loop c1 rid T st =
        wait_loop (c1\<lparr>incoming := rest, clock := clock c1 + elapsed pre (length pre)\<rparr>) rid T st"
    using Cons.prems(2) ex by (intro Cons.IH) (simp_all add: c1_def)
  moreover have "c1\<lparr>incoming := rest, clock := clock c1 + elapsed pre (length pre)\<rparr>
      = c\<lparr>incoming := rest, clock := clock c + elapsed (p # pre) (length (p # pre))\<rparr>"
    by (simp add: c1_def p elapsed_Cons algebra_simps)
  ultimately show ?case using w by simp
qed

lemma received_request_id_request_data:
  "''@extra'' \<notin> fst ` set ps \<Longrightarrow> received_request_id (request_data m rid ps) = Inr (JStr rid)"
proof -
  have "''@extra'' \<notin> fst ` set ps \<Longrightarrow> map_of (dict_update d ps) ''@extra'' = map_of d ''@extra''" for d
    by (induction ps arbitrary: d) (auto simp: update_conv')
  then show "''@extra'' \<notin> fst ` set ps \<Longrightarrow> ?thesis"
    by (simp add: received_request_id_def request_data_def dict_get_def json_get_def)
qed

section \<open>Request and response identity\<close>

text \<open>
  C1. When \<open>call_method\<close> returns an envelope, that envelope carries the correlation
  identifier generated for this call, which is the one placed in the request's \<open>@extra\<close>
  (and still there in the envelope sent, unless a parameter named \<open>@extra\<close> replaced it).
  It is the first poll that \<open>poll_step\<close> accepts: every poll before it was dropped, and
  an envelope whose identifier differs is never the one returned. Conversely, after any
  finite number of polls that do not match (and during which the timeout does not expire),
  a matching envelope that the classifier accepts is the one returned.
\<close>

theorem call_method_returns_matching_response:
  "(call_method c m t ps = Some (Inr resp, c') \<longrightarrow>
      received_request_id resp = Inr (JStr (uuid_source c (uuid_count c)))
    \<and> (\<exists>n dt. n < length (incoming c) \<and> incoming c ! n = (Some resp, dt)
          \<and> incoming c' = drop (Suc n) (incoming c)
          \<and> (\<forall>j<n. poll_step (uuid_source c (uuid_count c)) (fst (incoming c ! j)) = Inr None))
    \<and> (\<forall>r. no_match (uuid_source c (uuid_count c)) (Some r) \<longrightarrow> r \<noteq> resp)
    \<and> sent c' = sent c @ [request_data m (uuid_source c (uuid_count c)) ps]
    \<and> (''@extra'' \<notin> fst ` set ps \<longrightarrow>
          received_request_id (request_data m (uuid_source c (uuid_count c)) ps)
            = received_request_id resp))
 \<and> (incoming c = pre @ (Some r, dt) # rest
      \<and> (\<forall>p \<in> set pre. no_match (uuid_source c (uuid_count c)) (fst p))
      \<and> (\<forall>k<length pre. \<not> expired (py_or t (request_timeout c)) (elapsed pre (Suc k)))
      \<and> r \<noteq> [] \<and> received_request_id r = Inr (JStr (uuid_source c (uuid_count c)))
      \<and> handle_errors r = Inr () \<longrightarrow>
      (\<exists>c'. call_method c m t ps = Some (Inr r, c') \<and> incoming c' = rest))"
proof (intro conjI impI)
  let ?rid = "uuid_source c (uuid_count c)"
  let ?c2 = "c\<lparr>uuid_count := Suc (uuid_count c), sent := sent c @ [request_data m ?rid ps]\<rparr>"
  assume "call_method c m t ps = Some (Inr resp, c')"
  then have w: "wait_loop ?c2 ?rid (py_or t (request_timeout c)) (clock c) = Some (Inr resp, c')"
    by (simp add: call_method_unfold)
  from wait_loop_returns [OF w]
  obtain n dt where n: "n < length (incoming c)" "incoming c ! n = (Some resp, dt)"
    "incoming c' = drop (Suc n) (incoming c)"
    "\<forall>j<n. poll_step ?rid (fst (incoming c ! j)) = Inr None"
    "received_request_id resp = Inr (JStr ?rid)" "handle_errors resp = Inr ()"
    "sent c' = sent c @ [request_data m ?rid ps]"
    by auto
  show "received_request_id resp = Inr (JStr ?rid)" by (rule n(5))
  show "\<exists>n dt. n < length (incoming c) \<and> incoming c ! n = (Some resp, dt)
          \<and> incoming c' = drop (Suc n) (incoming c)
          \<and> (\<forall>j<n. poll_step ?rid (fst (incoming c ! j)) = Inr None)"
    using n(1-4) by blast
  show "\<forall>r. no_match ?rid (Some r) \<longrightarrow> r \<noteq> resp"
    using n(5) by (auto simp: no_match_def)
  show "sent c' = sent c @ [request_data m ?rid ps]" by (rule n(7))
  {
    assume "''@extra'' \<notin> fst ` set ps"
    then show "received_request_id (request_data m ?rid ps) = received_request_id resp"
      using n(5) by (simp add: received_request_id_request_data)
  }
next
  let ?rid = "uuid_source c (uuid_count c)"
  let ?T = "py_or t (request_timeout c)"
  let ?c2 = "c\<lparr>uuid_count := Suc (uuid_count c), sent := sent c @ [request_data m ?rid ps]\<rparr>"
  assume a: "incoming c = pre @ (Some r, dt) # rest
      \<and> (\<forall>p \<in> set pre. no_match ?rid (fst p))
      \<and> (\<forall>k<length pre. \<not> expired ?T (elapsed pre (Suc k)))
      \<and> r \<noteq> [] \<and> received_request_id r = Inr (JStr ?rid)
      \<and> handle_errors r = Inr ()"
  define c3 where "c3 = ?c2\<lparr>incoming := (Some r, dt) # rest,
      clock := clock ?c2 + elapsed pre (length pre)\<rparr>"
  have "wait_loop ?c2 ?rid ?T (clock c) = wait_loop c3 ?rid ?T (clock c)"
    unfolding c3_def using a by (intro wait_loop_skip) simp_all
  moreover have "poll_step ?rid (Some r) = Inr (Some r)"
    using a by (simp add: poll_step_def)
  moreover have "incoming c3 = (Some r, dt) # rest" by (simp add: c3_def)
  ultimately have "wait_loop ?c2 ?rid ?T (clock c)
      = Some (Inr r, c3\<lparr>incoming := rest, clock := clock c3 + dt\<rparr>)"
    by (simp add: wait_loop_Cons)
  then show "\<exists>c'. call_method c m t ps = Some (Inr r, c') \<and> incoming c' = rest"
    by (simp add: call_method_unfold)
qed

theorem call_method_returns_matching_response_witness:
  "(\<exists>c'. call_method
       (test_client (Some 60) [(Some unrelated_update, 1 / 10), (None, 1 / 10),
                               (Some other_answer, 1 / 10), (Some me_answer, 1 / 10)])
       ''getMe'' None [] = Some (Inr me_answer, c') \<and> incoming c' = [])
   \<and> received_request_id me_answer = Inr (JStr ''a'')
   \<and> received_request_id (request_data ''getMe'' ''a'' []) = Inr (JStr ''a'')
   \<and> me_answer \<noteq> other_answer \<and> me_answer \<noteq> unrelated_update"
proof -
  let ?pre = "[(Some unrelated_update, 1 / 10), (None, 1 / 10), (Some other_answer, 1 / 10)]"
  let ?c = "test_client (Some 60) (?pre @ [(Some me_answer, 1 / 10)])"
  have rid: "uuid_source ?c (uuid_count ?c) = ''a''"
    by (simp add: test_client_def uuid_of_def)
  have pre: "\<forall>p \<in> set ?pre. no_match ''a'' (fst p)"
    by (simp add: no_match_def received_request_id_def dict_get_def json_get_def
        unrelated_update_def other_answer_def)
  have ex: "\<forall>k<length ?pre. \<not> expired (py_or None (request_timeout ?c)) (elapsed ?pre (Suc k))"
    by (simp add: All_less_Suc expired_def py_or_def truthy_def test_client_def elapsed_def)
  have m: "me_answer \<noteq> [] \<and> received_request_id me_answer = Inr (JStr ''a'')
      \<and> handle_errors me_answer = Inr ()"
    by (simp add: me_answer_def received_request_id_def dict_get_def json_get_def
        handle_errors_def dict_item_def)
  have i: "incoming ?c = ?pre @ (Some me_answer, 1 / 10) # []"
    by (simp add: test_client_def)
  from call_method_returns_matching_response
      [of ?c "''getMe''" None "[]" me_answer _ ?pre me_answer "1 / 10" "[]", THEN conjunct2]
    rid pre ex m i
  obtain c' where c': "call_method ?c ''getMe'' None [] = Some (Inr me_answer, c')"
    "incoming c' = []"
    by auto
  from call_method_returns_matching_response
      [of ?c "''getMe''" None "[]" me_answer c', THEN conjunct1] c' rid
  have "received_request_id me_answer = Inr (JStr ''a'')"
    "received_request_id (request_data ''getMe'' ''a'' []) = received_request_id me_answer"
    by simp_all
  moreover have "me_answer \<noteq> other_answer \<and> me_answer \<noteq> unrelated_update"
    by (simp add: me_answer_def other_answer_def unrelated_update_def)
  ultimately show ?thesis using c' by auto
qed

section \<open>Timeout\<close>

text \<open>
  C2, as stated, fails: the channel below never produces an envelope whose identifier
  matches and the only poll takes 61 seconds against a timeout of 60, yet the call raises
  \<open>AttributeError\<close>, not the timeout error, because the envelope's \<open>@extra\<close> is a string
  and \<open>.get\<close> is applied to it.
\<close>

theorem call_method_malformed_extra:
  "map_option fst (call_method (test_client (Some 60) [(Some malformed_extra, 61)]) ''getMe'' None [])
     = Some (Inl AttributeError)
   \<and> received_request_id malformed_extra \<noteq> Inr (JStr ''a'')
   \<and> uuid_of 0 = ''a''
   \<and> elapsed [(Some malformed_extra, 61)] 1 = 61"
  by (simp add: call_method_unfold test_client_def uuid_of_def wait_loop_Cons poll_step_def
      received_request_id_def dict_get_def json_get_def malformed_extra_def elapsed_def)

text \<open>
  C2, amended. Let the timeout in force (the per-call value, or the configured one when
  the per-call value is absent or zero) be positive, let every poll either deliver
  nothing or deliver an envelope whose correlation identifier can be read (its \<open>@extra\<close>
  is absent or a dictionary) and differs from the request's, and let the time taken by
  the polls exceed the timeout at some poll. Then \<open>call_method\<close> raises
  \<open>UnknownError('TimeOutError')\<close> at the first poll after which the elapsed time exceeds
  the timeout; it neither returns a value nor keeps polling.
\<close>

theorem call_method_times_out:
  assumes "py_or timeout (request_timeout c) = Some T" and "0 < T"
    and "\<forall>p \<in> set (incoming c). no_match (uuid_source c (uuid_count c)) (fst p)"
    and "k < length (incoming c)" and "T < elapsed (incoming c) (Suc k)"
  shows "\<exists>n c'. n \<le> k \<and> T < elapsed (incoming c) (Suc n)
           \<and> (\<forall>j<n. \<not> T < elapsed (incoming c) (Suc j))
           \<and> call_method c m timeout params
               = Some (Inl (UnknownError (Text ''TimeOutError'')), c')
           \<and> incoming c' = drop (Suc n) (incoming c)"
proof -
  let ?rid = "uuid_source c (uuid_count c)"
  let ?c2 = "c\<lparr>uuid_count := Suc (uuid_count c),
      sent := sent c @ [request_data m ?rid params]\<rparr>"
  have "\<exists>n c'. n \<le> k \<and> T < clock ?c2 - clock c + elapsed (incoming c) (Suc n)
           \<and> (\<forall>j<n. \<not> T < clock ?c2 - clock c + elapsed (incoming c) (Suc j))
           \<and> wait_loop ?c2 ?rid (Some T) (clock c)
               = Some (Inl (UnknownError (Text ''TimeOutError'')), c')
           \<and> incoming c' = drop (Suc n) (incoming c) \<and> sent c' = sent ?c2"
    using assms by (intro wait_loop_timeout) simp_all
  then show ?thesis
    using assms(1) by (simp add: call_method_unfold) blast
qed

theorem call_method_times_out_witness:
  "\<exists>c'. call_method
       (test_client (Some 1) [(None, 6 / 10), (Some other_answer, 6 / 10), (None, 6 / 10)])
       ''getMe'' None []
     = Some (Inl (UnknownError (Text ''TimeOutError'')), c') \<and> incoming c' = [(None, 6 / 10)]"
proof -
  let ?polls = "[(None, 6 / 10), (Some other_answer, 6 / 10), (None, 6 / 10)]"
  let ?c = "test_client (Some 1) ?polls"
  have 1: "py_or None (request_timeout ?c) = Some 1"
    by (simp add: py_or_def truthy_def test_client_def)
  have 2: "\<forall>p \<in> set (incoming ?c). no_match (uuid_source ?c (uuid_count ?c)) (fst p)"
    by (simp add: test_client_def uuid_of_def no_match_def received_request_id_def
        dict_get_def json_get_def other_answer_def)
  have 3: "1 < length (incoming ?c)" "1 < elapsed (incoming ?c) (Suc 1)"
    by (simp_all add: test_client_def elapsed_def)
  from call_method_times_out [OF 1 _ 2 3, of "''getMe''" "[]"]
  obtain n c' where n: "n \<le> 1" "1 < elapsed (incoming ?c) (Suc n)"
    "call_method ?c ''getMe'' None [] = Some (Inl (UnknownError (Text ''TimeOutError'')), c')"
    "incoming c' = drop (Suc n) (incoming ?c)"
    by auto
  have "n = 1"
  proof (rule ccontr)
    assume "n \<noteq> 1"
    with n(1) have "n = 0" by simp
    with n(2) show False by (simp add: test_client_def elapsed_def)
  qed
  with n show ?thesis by (simp add: test_client_def)
qed

section \<open>Choice of the timeout\<close>

text \<open>
  C3, as stated, fails for an explicit timeout of zero: the configured default of 60 is
  applied (the call times out after a poll of 61 seconds), whereas with no default the
  same call is still waiting.
\<close>

theorem explicit_zero_timeout_not_overriding:
  "map_option fst (call_method (test_client (Some 60) [(None, 61)]) ''getMe'' (Some 0) [])
     = Some (Inl (UnknownError (Text ''TimeOutError'')))
   \<and> call_method (test_client None [(None, 61)]) ''getMe'' (Some 0) [] = None"
  by (simp add: call_method_unfold test_client_def uuid_of_def wait_loop_Cons wait_loop_Nil
      poll_step_def py_or_def truthy_def timed_out_def)

text \<open>
  C3, amended. An explicit per-call timeout other than zero overrides the default: the
  outcome does not depend on the configured value. A per-call timeout that is absent or
  zero falls back to the configured default. When the timeout in force is absent or zero,
  no timeout error is ever raised, and as long as no poll matches the call is still
  waiting at the end of every finite sequence of polls.
\<close>

theorem call_method_timeout_choice:
  "(t \<noteq> 0 \<longrightarrow>
      call_method (c\<lparr>request_timeout := d\<rparr>) m (Some t) ps
        = map_option (\<lambda>(r, c'). (r, c'\<lparr>request_timeout := d\<rparr>)) (call_method c m (Some t) ps))
 \<and> (timeout = None \<or> timeout = Some 0 \<longrightarrow>
      call_method c m timeout ps = call_method c m (request_timeout c) ps)
 \<and> (\<not> truthy (py_or timeout (request_timeout c)) \<longrightarrow>
      (\<forall>c'. call_method c m timeout ps \<noteq> Some (Inl (UnknownError (Text ''TimeOutError'')), c'))
    \<and> ((\<forall>p \<in> set (incoming c). no_match (uuid_source c (uuid_count c)) (fst p)) \<longrightarrow>
          call_method c m timeout ps = None))"
proof (intro conjI impI allI)
  let ?rid = "uuid_source c (uuid_count c)"
  let ?c2 = "c\<lparr>uuid_count := Suc (uuid_count c), sent := sent c @ [request_data m ?rid ps]\<rparr>"
  assume t: "t \<noteq> 0"
  have e: "c\<lparr>request_timeout := d, uuid_count := Suc (uuid_count c),
      sent := sent c @ [request_data m ?rid ps]\<rparr> = ?c2\<lparr>request_timeout := d\<rparr>"
    by simp
  have p: "py_or (Some t) x = Some t" for x
    using t by (simp add: py_or_def truthy_def)
  show "call_method (c\<lparr>request_timeout := d\<rparr>) m (Some t) ps
        = map_option (\<lambda>(r, c'). (r, c'\<lparr>request_timeout := d\<rparr>)) (call_method c m (Some t) ps)"
    unfolding call_method_unfold p
    by (simp add: e wait_loop_default_irrelevant [OF refl])
next
  assume "timeout = None \<or> timeout = Some 0"
  then have "py_or timeout (request_timeout c) = py_or (request_timeout c) (request_timeout c)"
    by (auto simp: py_or_def truthy_def)
  then show "call_method c m timeout ps = call_method c m (request_timeout c) ps"
    by (simp add: call_method_unfold)
next
  fix c'
  assume "\<not> truthy (py_or timeout (request_timeout c))"
  then show "call_method c m timeout ps \<noteq> Some (Inl (UnknownError (Text ''TimeOutError'')), c')"
    unfolding call_method_unfold by (intro wait_loop_no_timeout [OF refl])
next
  assume "\<not> truthy (py_or timeout (request_timeout c))"
    and "\<forall>p \<in> set (incoming c). no_match (uuid_source c (uuid_count c)) (fst p)"
  then show "call_method c m timeout ps = None"
    unfolding call_method_unfold by (intro wait_loop_forever [OF refl]) simp_all
qed

theorem call_method_timeout_choice_witness:
  "map_option fst (call_method (test_client (Some 60) [(None, 3)]) ''getMe'' (Some 2) [])
     = Some (Inl (UnknownError (Text ''TimeOutError'')))
   \<and> map_option fst (call_method (test_client None [(None, 3)]) ''getMe'' (Some 2) [])
     = Some (Inl (UnknownError (Text ''TimeOutError'')))
   \<and> call_method (test_client (Some 2) [(None, 1)]) ''getMe'' None []
     = call_method (test_client (Some 2) [(None, 1)]) ''getMe'' (Some 2) []
   \<and> call_method (test_client (Some 0) [(None, 100), (Some other_answer, 100)]) ''getMe'' None []
     = None"
proof -
  let ?c = "test_client (Some 60) [(None, 3)]"
  have a: "map_option fst (call_method ?c ''getMe'' (Some 2) [])
     = Some (Inl (UnknownError (Text ''TimeOutError'')))"
    by (simp add: call_method_unfold test_client_def uuid_of_def wait_loop_Cons
        poll_step_def py_or_def truthy_def timed_out_def)
  have e: "?c\<lparr>request_timeout := None\<rparr> = test_client None [(None, 3)]"
    by (simp add: test_client_def)
  from call_method_timeout_choice [where t = 2 and c = ?c and d = None and m = "''getMe''"
      and ps = "[]", THEN conjunct1]
  have "call_method (test_client None [(None, 3)]) ''getMe'' (Some 2) []
      = map_option (\<lambda>(r, c'). (r, c'\<lparr>request_timeout := None\<rparr>)) (call_method ?c ''getMe'' (Some 2) [])"
    by (simp add: e)
  then have b: "map_option fst (call_method (test_client None [(None, 3)]) ''getMe'' (Some 2) [])
     = Some (Inl (UnknownError (Text ''TimeOutError'')))"
    using a by (cases "call_method ?c ''getMe'' (Some 2) []") auto
  let ?c2 = "test_client (Some 2) [(None, 1)]"
  from call_method_timeout_choice [where c = ?c2 and m = "''getMe''" and ps = "[]"
      and timeout = None, THEN conjunct2, THEN conjunct1]
  have c: "call_method ?c2 ''getMe'' None [] = call_method ?c2 ''getMe'' (Some 2) []"
    by (simp add: test_client_def)
  let ?c3 = "test_client (Some 0) [(None, 100), (Some other_answer, 100)]"
  have "\<not> truthy (py_or None (request_timeout ?c3))"
    by (simp add: py_or_def truthy_def test_client_def)
  moreover have "\<forall>p \<in> set (incoming ?c3). no_match (uuid_source ?c3 (uuid_count ?c3)) (fst p)"
    by (simp add: test_client_def uuid_of_def no_match_def received_request_id_def
        dict_get_def json_get_def other_answer_def)
  ultimately have d: "call_method ?c3 ''getMe'' None [] = None"
    using call_method_timeout_choice [where c = ?c3 and m = "''getMe''" and ps = "[]"
        and timeout = None, THEN conjunct2, THEN conjunct2]
    by blast
  from a b c d show ?thesis by simp
qed

section \<open>Envelopes without a correlation identifier\<close>

text \<open>
  C10, as stated, fails: the matching step is not total over all dictionaries. An
  envelope whose \<open>@extra\<close> is present and not a dictionary makes the second \<open>.get\<close> raise
  \<open>AttributeError\<close>.
\<close>

theorem non_mapping_extra_raises:
  "poll_step ''a'' (Some [(''@type'', JStr ''updateOption''), (''@extra'', JStr ''abc'')])
     = Inl AttributeError"
  by (simp add: poll_step_def received_request_id_def dict_get_def json_get_def)

text \<open>
  C10, amended. An envelope that lacks \<open>@extra\<close>, or whose \<open>@extra\<close> is a dictionary
  without \<open>request_id\<close>, is dropped without an exception and is not matched with the
  pending request. The lookup of the identifier cannot fail on an envelope whose
  \<open>@extra\<close> is absent or a dictionary. On a non-empty envelope whose \<open>@extra\<close> is any
  other value the lookup raises \<open>AttributeError\<close>.
\<close>

theorem poll_step_without_request_id:
  "((map_of r ''@extra'' = None
       \<or> (\<exists>d. map_of r ''@extra'' = Some (JObj d) \<and> map_of d ''request_id'' = None)) \<longrightarrow>
      poll_step request_id (Some r) = Inr None)
 \<and> ((map_of r ''@extra'' = None \<or> (\<exists>d. map_of r ''@extra'' = Some (JObj d))) \<longrightarrow>
      (\<exists>x. received_request_id r = Inr x))
 \<and> (r \<noteq> [] \<and> (\<exists>v. map_of r ''@extra'' = Some v \<and> (\<forall>d. v \<noteq> JObj d)) \<longrightarrow>
      poll_step request_id (Some r) = Inl AttributeError)"
  by (auto simp: poll_step_def received_request_id_def dict_get_def json_get_def
      split: json.splits)

theorem poll_step_without_request_id_witness:
  "poll_step ''a'' (Some unrelated_update) = Inr None
   \<and> poll_step ''a'' (Some [(''@type'', JStr ''ok''), (''@extra'', JObj [])]) = Inr None
   \<and> (\<exists>x. received_request_id other_answer = Inr x)
   \<and> poll_step ''a'' (Some [(''@extra'', JNull)]) = Inl AttributeError"
  using poll_step_without_request_id [of unrelated_update "''a''"]
    poll_step_without_request_id [of "[(''@type'', JStr ''ok''), (''@extra'', JObj [])]" "''a''"]
    poll_step_without_request_id [of other_answer "''a''"]
    poll_step_without_request_id [of "[(''@extra'', JNull)]" "''a''"]
  by (simp add: unrelated_update_def other_answer_def)

section \<open>What a call leaves behind\<close>

lemma wait_loop_fields:
  "wait_loop c rid T st = Some (x, c') \<Longrightarrow>
   sent c' = sent c \<and> uuid_count c' = uuid_count c \<and> uuid_source c' = uuid_source c
   \<and> request_timeout c' = request_timeout c \<and> request_delay c' = request_delay c
   \<and> log c' = log c"
proof (induction c rid T st rule: wait_loop.induct)
  case (1 c rid T st)
  show ?case
  proof (cases "incoming c")
    case Nil
    with "1.prems" show ?thesis by (simp add: wait_loop_Nil)
  next
    case (Cons p rest)
    obtain e dt where p: "p = (e, dt)" by (cases p)
    let ?c1 = "c\<lparr>incoming := rest, clock := clock c + dt\<rparr>"
    have rc: "receive c = Some (e, ?c1)" using Cons p by (simp add: receive_def)
    note eq = wait_loop_Cons [OF Cons [unfolded p], of rid T st]
    show ?thesis
    proof (cases "poll_step rid e = Inr None \<and> \<not> timed_out ?c1 T st")
      case True
      then have "wait_loop ?c1 rid T st = Some (x, c')"
        using eq "1.prems" by simp
      with "1.IH" [OF rc refl _ _ _] True show ?thesis by simp
    next
      case False
      then have "c' = ?c1"
        using eq "1.prems" by (auto split: sum.splits option.splits if_splits)
      then show ?thesis by simp
    qed
  qed
qed

lemma call_method_fields:
  "call_method c m t ps = Some (x, c') \<Longrightarrow>
   sent c' = sent c @ [request_data m (uuid_source c (uuid_count c)) ps]
   \<and> uuid_count c' = Suc (uuid_count c) \<and> uuid_source c' = uuid_source c
   \<and> request_timeout c' = request_timeout c \<and> request_delay c' = request_delay c
   \<and> log c' = log c"
  by (auto simp: call_method_unfold dest!: wait_loop_fields)

lemma get_auth_state_sent:
  "get_auth_state c = Some (x, c1) \<Longrightarrow>
   sent c1 = sent c @ [request_data ''getAuthorizationState'' (uuid_source c (uuid_count c)) []]"
  by (auto simp: get_auth_state_def split: option.splits sum.splits prod.splits
      dest!: call_method_fields)

lemma call_method_first_answer:
  assumes "r \<noteq> []" "received_request_id r = Inr (JStr ''a'')" "handle_errors r = Inr ()"
  shows "call_method (test_client T ((Some r, dt) # rest)) m None ps
     = Some (Inr r, \<lparr>request_timeout = T, request_delay = 1 / 2,
          sent = [request_data m ''a'' ps], incoming = rest, clock = dt,
          uuid_source = uuid_of, uuid_count = 1, log = []\<rparr>)"
  using assms
  by (simp add: call_method_unfold test_client_def uuid_of_def wait_loop_Cons poll_step_def)

lemma wait_password_state:
  "get_auth_state (test_client (Some 60) [(Some wait_password_answer, 1 / 10)])
     = Some (Inr WaitPassword,
         \<lparr>request_timeout = Some 60, request_delay = 1 / 2,
          sent = [request_data ''getAuthorizationState'' ''a'' []], incoming = [],
          clock = 1 / 10, uuid_source = uuid_of, uuid_count = 1, log = []\<rparr>)"
proof -
  have a: "wait_password_answer \<noteq> []"
    "received_request_id wait_password_answer = Inr (JStr ''a'')"
    "handle_errors wait_password_answer = Inr ()"
    by (simp_all add: wait_password_answer_def received_request_id_def dict_get_def json_get_def
        handle_errors_def dict_item_def)
  have t: "dict_item wait_password_answer ''@type'' = Inr WaitPassword"
    by (simp add: wait_password_answer_def dict_item_def WaitPassword_def)
  show ?thesis
    by (simp add: get_auth_state_def call_method_first_answer [OF a] t)
qed

section \<open>Submitting a code without the password\<close>

text \<open>
  C9. \<open>send_sms_code\<close> observes the authorization state through \<open>get_auth_state\<close>. If
  the state it observes is \<open>WaitPassword\<close> and the password is absent or empty, it fails
  with \<open>TwoFactorPasswordNeeded\<close> in the very state in which the observation left the
  client: between the observation and the failure no remote call is made, so the request
  of the observation is the last envelope sent and no password is submitted. If the first
  state observed is \<open>WaitCode\<close>, the code is submitted and the state observed again; when
  that second state is \<open>WaitPassword\<close> the failure comes in the state that second
  observation left, after these three requests and none more.
\<close>

theorem send_sms_code_needs_password:
  "(get_auth_state c = Some (Inr WaitPassword, c1) \<and> (password = None \<or> password = Some []) \<longrightarrow>
      send_sms_code c sms_code password = Some (Inl TwoFactorPasswordNeeded, c1)
      \<and> sent c1 = sent c
          @ [request_data ''getAuthorizationState'' (uuid_source c (uuid_count c)) []])
 \<and> (get_auth_state c = Some (Inr WaitCode, c1)
      \<and> call_method c1 ''checkAuthenticationCode'' None [(''code'', JStr sms_code)]
          = Some (Inr send_code_result, c2)
      \<and> get_auth_state (logger c2 (Info (Fmt ''checkAuthenticationCode response: %s''
                                           [JObj send_code_result])))
          = Some (Inr WaitPassword, c3)
      \<and> (password = None \<or> password = Some []) \<longrightarrow>
      send_sms_code c sms_code password = Some (Inl TwoFactorPasswordNeeded, c3)
      \<and> length (sent c3) = length (sent c) + 3)"
proof (intro conjI impI)
  have ne: "WaitPassword \<noteq> WaitCode" by (simp add: WaitPassword_def WaitCode_def)
  {
    assume a: "get_auth_state c = Some (Inr WaitPassword, c1)
      \<and> (password = None \<or> password = Some [])"
    then show "send_sms_code c sms_code password = Some (Inl TwoFactorPasswordNeeded, c1)"
      using ne by (auto simp: send_sms_code_def send_password_def)
    from a show "sent c1 = sent c
          @ [request_data ''getAuthorizationState'' (uuid_source c (uuid_count c)) []]"
      by (auto dest: get_auth_state_sent)
  }
  {
    assume a: "get_auth_state c = Some (Inr WaitCode, c1)
      \<and> call_method c1 ''checkAuthenticationCode'' None [(''code'', JStr sms_code)]
          = Some (Inr send_code_result, c2)
      \<and> get_auth_state (logger c2 (Info (Fmt ''checkAuthenticationCode response: %s''
                                           [JObj send_code_result])))
          = Some (Inr WaitPassword, c3)
      \<and> (password = None \<or> password = Some [])"
    then show "send_sms_code c sms_code password = Some (Inl TwoFactorPasswordNeeded, c3)"
      by (auto simp: send_sms_code_def send_password_def)
    from a have "length (sent c1) = length (sent c) + 1"
      "length (sent c2) = length (sent c1) + 1"
      "length (sent c3) = length (sent c2) + 1"
      by (auto dest!: get_auth_state_sent call_method_fields simp: logger_def)
    then show "length (sent c3) = length (sent c) + 3" by simp
  }
qed

theorem send_sms_code_needs_password_witness:
  "send_sms_code (test_client (Some 60) [(Some wait_password_answer, 1 / 10)]) ''12345'' (Some [])
     = Some (Inl TwoFactorPasswordNeeded,
         \<lparr>request_timeout = Some 60, request_delay = 1 / 2,
          sent = [request_data ''getAuthorizationState'' ''a'' []], incoming = [],
          clock = 1 / 10, uuid_source = uuid_of, uuid_count = 1, log = []\<rparr>)"
  using send_sms_code_needs_password
      [where c = "test_client (Some 60) [(Some wait_password_answer, 1 / 10)]"
        and password = "Some []" and sms_code = "''12345''", THEN conjunct1]
    wait_password_state
  by simp

section \<open>Validation of the page size\<close>

lemma get_chat_answer:
  "call_method (test_client (Some 60) [(Some (group_chat_answer kind), 1 / 10)]) ''getChat'' None
       [(''chat_id'', JInt 5)]
     = Some (Inr (group_chat_answer kind),
         \<lparr>request_timeout = Some 60, request_delay = 1 / 2,
          sent = [request_data ''getChat'' ''a'' [(''chat_id'', JInt 5)]], incoming = [],
          clock = 1 / 10, uuid_source = uuid_of, uuid_count = 1, log = []\<rparr>)"
  by (intro call_method_first_answer)
     (simp_all add: group_chat_answer_def received_request_id_def dict_get_def json_get_def
        handle_errors_def dict_item_def)

lemma group_chat_answer_type:
  "chat_type_item (group_chat_answer kind) ''@type'' = Inr (JStr kind)"
  by (simp add: chat_type_item_def group_chat_answer_def dict_item_def json_item_def)

text \<open>
  C6. For a page size of at most 1, \<open>get_all_chats\<close> raises its validation error at
  once: the client and the channel are left as they were, so nothing is sent. The member
  listing learns the kind of the group from the chat lookup (\<open>getChat\<close>, an offline
  request); for a page size of at most 1 and a chat of the supergroup kind it raises the
  validation error in the very state the lookup left: the lookup is the only envelope
  sent, and no request for members is made.
\<close>

theorem page_size_validation:
  "(page_size \<le> 1 \<longrightarrow>
      get_all_chats c page_size = Some (Inl (TDLibError (Text ''Invalid \"page_size\"'')), c))
 \<and> (page_size \<le> 1
      \<and> call_method c ''getChat'' None [(''chat_id'', JInt group_id)] = Some (Inr chat, c1)
      \<and> chat_type_item chat ''@type'' = Inr (JStr ''chatTypeSupergroup'') \<longrightarrow>
      get_group_members c group_id page_size
        = Some (Inl (TDLibError (Text ''Invalid \"page_size\"'')), c1)
      \<and> sent c1 = sent c @ [request_data ''getChat'' (uuid_source c (uuid_count c))
                               [(''chat_id'', JInt group_id)]])"
proof (intro conjI impI)
  assume "page_size \<le> 1"
  then show "get_all_chats c page_size
      = Some (Inl (TDLibError (Text ''Invalid \"page_size\"'')), c)"
    by (simp add: get_all_chats_def)
next
  assume a: "page_size \<le> 1
      \<and> call_method c ''getChat'' None [(''chat_id'', JInt group_id)] = Some (Inr chat, c1)
      \<and> chat_type_item chat ''@type'' = Inr (JStr ''chatTypeSupergroup'')"
  then show "get_group_members c group_id page_size
        = Some (Inl (TDLibError (Text ''Invalid \"page_size\"'')), c1)"
    by (simp add: get_group_members_def group_members_def get_super_group_members_def)
  from a show "sent c1 = sent c @ [request_data ''getChat'' (uuid_source c (uuid_count c))
                               [(''chat_id'', JInt group_id)]]"
    by (auto dest: call_method_fields)
qed

theorem page_size_validation_witness:
  "get_all_chats (test_client (Some 60) []) 1
     = Some (Inl (TDLibError (Text ''Invalid \"page_size\"'')), test_client (Some 60) [])
   \<and> get_group_members
       (test_client (Some 60) [(Some (group_chat_answer ''chatTypeSupergroup''), 1 / 10)]) 5 0
     = Some (Inl (TDLibError (Text ''Invalid \"page_size\"'')),
         \<lparr>request_timeout = Some 60, request_delay = 1 / 2,
          sent = [request_data ''getChat'' ''a'' [(''chat_id'', JInt 5)]], incoming = [],
          clock = 1 / 10, uuid_source = uuid_of, uuid_count = 1, log = []\<rparr>)"
  using page_size_validation [where page_size = 1 and c = "test_client (Some 60) []",
      THEN conjunct1]
    page_size_validation [where page_size = 0 and group_id = 5
      and c = "test_client (Some 60) [(Some (group_chat_answer ''chatTypeSupergroup''), 1 / 10)]",
      THEN conjunct2]
    get_chat_answer [of "''chatTypeSupergroup''"] group_chat_answer_type [of "''chatTypeSupergroup''"]
  by simp

section \<open>Unknown kinds of group\<close>

text \<open>
  C8. When the chat returned by \<open>getChat\<close> has a type tag that is neither
  \<open>chatTypeBasicGroup\<close> nor \<open>chatTypeSupergroup\<close>, \<open>get_group_members\<close> raises
  \<open>TDLibError\<close>, the base error class, with the tag in its message; it returns no
  members, and the chat lookup is the only request it has sent.
\<close>

theorem unknown_group_type:
  assumes "call_method c ''getChat'' None [(''chat_id'', JInt group_id)] = Some (Inr chat, c1)"
    and "chat_type_item chat ''@type'' = Inr ty"
    and "ty \<noteq> JStr ''chatTypeBasicGroup''" and "ty \<noteq> JStr ''chatTypeSupergroup''"
  shows "get_group_members c group_id page_size
           = Some (Inl (TDLibError (Fmt ''Unknown group type: %s'' [ty])), c1)
         \<and> sent c1 = sent c @ [request_data ''getChat'' (uuid_source c (uuid_count c))
                                  [(''chat_id'', JInt group_id)]]"
proof
  have "group_members c1 chat page_size
      = Some (Inl (TDLibError (Fmt ''Unknown group type: %s'' [ty])), c1)"
    using assms(2-4) by (simp add: group_members_def)
  then show "get_group_members c group_id page_size
      = Some (Inl (TDLibError (Fmt ''Unknown group type: %s'' [ty])), c1)"
    using assms(1) by (simp add: get_group_members_def)
  show "sent c1 = sent c @ [request_data ''getChat'' (uuid_source c (uuid_count c))
                                  [(''chat_id'', JInt group_id)]]"
    using assms(1) by (auto dest: call_method_fields)
qed

theorem unknown_group_type_witness:
  "get_group_members (test_client (Some 60) [(Some (group_chat_answer ''chatTypePrivate''), 1 / 10)])
       5 200
     = Some (Inl (TDLibError (Fmt ''Unknown group type: %s'' [JStr ''chatTypePrivate''])),
         \<lparr>request_timeout = Some 60, request_delay = 1 / 2,
          sent = [request_data ''getChat'' ''a'' [(''chat_id'', JInt 5)]], incoming = [],
          clock = 1 / 10, uuid_source = uuid_of, uuid_count = 1, log = []\<rparr>)"
  using unknown_group_type [OF get_chat_answer [of "''chatTypePrivate''"]
      group_chat_answer_type [of "''chatTypePrivate''"], of 200]
  by simp

section \<open>Time and the channel\<close>

lemma elapsed_add:
  "elapsed polls (j + k) = elapsed polls j + elapsed (drop j polls) k"
proof -
  have "take (j + k) polls = take j polls @ take k (drop j polls)"
    by (simp add: take_add)
  then show ?thesis by (simp add: elapsed_def)
qed

lemma advanced_refl: "advanced c c 0"
  by (auto simp: advanced_def elapsed_def intro!: exI [of _ 0])

lemma advanced_trans:
  assumes "advanced c c1 d1" and "advanced c1 c2 d2"
  shows "advanced c c2 (d1 + d2)"
proof -
  from assms(1) obtain j where j: "j \<le> length (incoming c)" "incoming c1 = drop j (incoming c)"
    "clock c1 = clock c + elapsed (incoming c) j + d1"
    by (auto simp: advanced_def)
  from assms(2) obtain k where k: "k \<le> length (incoming c1)" "incoming c2 = drop k (incoming c1)"
    "clock c2 = clock c1 + elapsed (incoming c1) k + d2"
    by (auto simp: advanced_def)
  have "j + k \<le> length (incoming c)" using j k by simp
  moreover have "incoming c2 = drop (j + k) (incoming c)" using j k by (simp add: add.commute)
  moreover have "clock c2 = clock c + elapsed (incoming c) (j + k) + (d1 + d2)"
    using j k by (simp add: elapsed_add)
  ultimately show ?thesis unfolding advanced_def by blast
qed

lemma wait_loop_advanced:
  "wait_loop c rid T st = Some (x, c') \<Longrightarrow> advanced c c' 0"
proof (induction c rid T st rule: wait_loop.induct)
  case (1 c rid T st)
  show ?case
  proof (cases "incoming c")
    case Nil
    with "1.prems" show ?thesis by (simp add: wait_loop_Nil)
  next
    case (Cons p rest)
    obtain e dt where p: "p = (e, dt)" by (cases p)
    let ?c1 = "c\<lparr>incoming := rest, clock := clock c + dt\<rparr>"
    have rc: "receive c = Some (e, ?c1)" using Cons p by (simp add: receive_def)
    have one: "advanced c ?c1 0"
      unfolding advanced_def using Cons p
      by (intro exI [of _ 1]) (simp add: elapsed_def)
    note eq = wait_loop_Cons [OF Cons [unfolded p], of rid T st]
    show ?thesis
    proof (cases "poll_step rid e = Inr None \<and> \<not> timed_out ?c1 T st")
      case True
      then have "wait_loop ?c1 rid T st = Some (x, c')"
        using eq "1.prems" by simp
      with "1.IH" [OF rc refl _ _ _] True have "advanced ?c1 c' 0" by simp
      with advanced_trans [OF one this] show ?thesis by simp
    next
      case False
      then have "c' = ?c1"
        using eq "1.prems" by (auto split: sum.splits option.splits if_splits)
      with one show ?thesis by simp
    qed
  qed
qed

lemma call_method_advanced:
  "call_method c m t ps = Some (x, c') \<Longrightarrow> advanced c c' 0"
  by (auto simp: call_method_unfold advanced_def dest!: wait_loop_advanced)

lemma sleep_advanced:
  "sleep c d = Inr c' \<Longrightarrow> advanced c c' d \<and> request_delay c' = request_delay c"
  by (auto simp: sleep_def advanced_def elapsed_def split: if_splits intro!: exI [of _ 0])

section \<open>Conversations\<close>

lemma handle_errors_is_result: "(handle_errors r = Inr ()) = is_result r"
  by (auto simp: handle_errors_def is_result_def dict_item_def Let_def split: option.splits)

lemma poll_step_no_match: "(poll_step rid e = Inr None) = no_match rid e"
  by (auto simp: poll_step_def no_match_def received_request_id_def dict_get_def json_get_def
      split: option.splits sum.splits)

lemma requests_append:
  "requests src n (xs @ ys) = requests src n xs @ requests src (n + length xs) ys"
  by (induction xs arbitrary: n) auto

lemma answered_Cons_iff:
  "answered T src n ((m, ps, r) # xs) polls rest =
     (\<exists>pre dt mid. polls = pre @ (Some r, dt) # mid
        \<and> (\<forall>p \<in> set pre. no_match (src n) (fst p)) \<and> in_time T 0 pre
        \<and> received_request_id r = Inr (JStr (src n)) \<and> is_result r
        \<and> answered T src (Suc n) xs mid rest)"
proof
  let ?P = "\<lambda>p. no_match (src n) (fst p)"
  assume a: "answered T src n ((m, ps, r) # xs) polls rest"
  then obtain dt mid where d: "dropWhile ?P polls = (Some r, dt) # mid"
    and r: "received_request_id r = Inr (JStr (src n))" "is_result r"
      "answered T src (Suc n) xs mid rest"
    by (auto split: list.splits)
  have "polls = takeWhile ?P polls @ (Some r, dt) # mid"
    using takeWhile_dropWhile_id [of ?P polls] d by simp
  moreover have "\<forall>p \<in> set (takeWhile ?P polls). ?P p"
    by (auto dest: set_takeWhileD)
  moreover have "in_time T 0 (takeWhile ?P polls)" using a by simp
  ultimately show "\<exists>pre dt mid. polls = pre @ (Some r, dt) # mid
        \<and> (\<forall>p \<in> set pre. no_match (src n) (fst p)) \<and> in_time T 0 pre
        \<and> received_request_id r = Inr (JStr (src n)) \<and> is_result r
        \<and> answered T src (Suc n) xs mid rest"
    using r by blast
next
  let ?P = "\<lambda>p. no_match (src n) (fst p)"
  assume "\<exists>pre dt mid. polls = pre @ (Some r, dt) # mid
        \<and> (\<forall>p \<in> set pre. no_match (src n) (fst p)) \<and> in_time T 0 pre
        \<and> received_request_id r = Inr (JStr (src n)) \<and> is_result r
        \<and> answered T src (Suc n) xs mid rest"
  then obtain pre dt mid where p: "polls = pre @ (Some r, dt) # mid"
    "\<forall>p \<in> set pre. ?P p" "in_time T 0 pre"
    "received_request_id r = Inr (JStr (src n))" "is_result r"
    "answered T src (Suc n) xs mid rest"
    by blast
  have n: "\<not> ?P (Some r, dt)" using p(4) by (simp add: no_match_def)
  have "takeWhile ?P polls = pre" "dropWhile ?P polls = (Some r, dt) # mid"
    using p(1,2) n by (simp_all add: takeWhile_append2 dropWhile_append2)
  then show "answered T src n ((m, ps, r) # xs) polls rest"
    using p by simp
qed

declare answered.simps(2) [simp del]

lemma answered_append:
  "answered T src n (xs @ ys) polls rest =
     (\<exists>mid. answered T src n xs polls mid \<and> answered T src (n + length xs) ys mid rest)"
proof (induction xs arbitrary: n polls)
  case Nil
  show ?case by simp
next
  case (Cons x xs)
  obtain m ps r where x: "x = (m, ps, r)" by (cases x)
  show ?case
    unfolding x append_Cons answered_Cons_iff Cons.IH
    by auto
qed


lemma in_time_elapsed:
  "in_time T el pre = (\<forall>k<length pre. \<not> expired T (el + elapsed pre (Suc k)))"
proof (induction pre arbitrary: el)
  case Nil
  show ?case by simp
next
  case (Cons p pre)
  obtain e dt where p: "p = (e, dt)" by (cases p)
  show ?case
    unfolding p in_time.simps Cons.IH
    by (simp add: All_less_Suc2 elapsed_Cons add.assoc) (simp add: elapsed_def)
qed

lemma wait_loop_answered:
  "wait_loop c rid T st = Some (Inr resp, c') \<Longrightarrow>
   \<exists>pre dt. incoming c = pre @ (Some resp, dt) # incoming c'
     \<and> (\<forall>p \<in> set pre. no_match rid (fst p)) \<and> in_time T (clock c - st) pre
     \<and> received_request_id resp = Inr (JStr rid) \<and> is_result resp"
proof (induction c rid T st rule: wait_loop.induct)
  case (1 c rid T st)
  show ?case
  proof (cases "incoming c")
    case Nil
    with "1.prems" show ?thesis by (simp add: wait_loop_Nil)
  next
    case (Cons p rest)
    obtain e dt where p: "p = (e, dt)" by (cases p)
    let ?c1 = "c\<lparr>incoming := rest, clock := clock c + dt\<rparr>"
    have rc: "receive c = Some (e, ?c1)" using Cons p by (simp add: receive_def)
    note eq = wait_loop_Cons [OF Cons [unfolded p], of rid T st]
    show ?thesis
    proof (cases "poll_step rid e")
      case (Inl err)
      with eq "1.prems" show ?thesis by simp
    next
      case (Inr o1)
      show ?thesis
      proof (cases o1)
        case (Some r)
        with Inr eq "1.prems" have r: "r = resp" "c' = ?c1" by simp_all
        from poll_step_Some [OF Inr [unfolded Some]] r
        have "e = Some resp" "received_request_id resp = Inr (JStr rid)" "is_result resp"
          by (simp_all add: handle_errors_is_result)
        then show ?thesis using Cons p r
          by (intro exI [of _ "[]"] exI [of _ dt]) simp
      next
        case None
        with Inr eq "1.prems" have nt: "\<not> timed_out ?c1 T st"
          and w: "wait_loop ?c1 rid T st = Some (Inr resp, c')"
          by (simp_all split: if_splits)
        from "1.IH" [OF rc refl Inr None nt w]
        obtain pre dt' where n: "rest = pre @ (Some resp, dt') # incoming c'"
          "\<forall>p \<in> set pre. no_match rid (fst p)" "in_time T (clock c + dt - st) pre"
          "received_request_id resp = Inr (JStr rid)" "is_result resp"
          by auto
        have nm: "no_match rid e" using Inr None by (simp add: poll_step_no_match)
        have eq2: "clock c - st + dt = clock c + dt - st" by simp
        have "\<not> expired T (clock c - st + dt)"
          using nt by (simp add: timed_out_expired algebra_simps)
        then have "in_time T (clock c - st) ((e, dt) # pre)"
          using n(3) by (simp add: eq2)
        then show ?thesis using n nm Cons p
          by (intro exI [of _ "(e, dt) # pre"] exI [of _ dt']) simp
      qed
    qed
  qed
qed

lemma call_method_conversation:
  assumes "call_method c m None ps = Some (Inr r, c')"
  shows "conversation c c' [(m, ps, r)]"
proof -
  let ?rid = "uuid_source c (uuid_count c)"
  let ?c2 = "c\<lparr>uuid_count := Suc (uuid_count c), sent := sent c @ [request_data m ?rid ps]\<rparr>"
  have T: "py_or None (request_timeout c) = request_timeout c"
    by (simp add: py_or_def truthy_def)
  from assms have w: "wait_loop ?c2 ?rid (request_timeout c) (clock c) = Some (Inr r, c')"
    by (simp add: call_method_unfold T)
  from wait_loop_answered [OF w] obtain pre dt where
    "incoming c = pre @ (Some r, dt) # incoming c'"
    "\<forall>p \<in> set pre. no_match ?rid (fst p)" "in_time (request_timeout c) 0 pre"
    "received_request_id r = Inr (JStr ?rid)" "is_result r"
    by auto
  then have "answered (request_timeout c) (uuid_source c) (uuid_count c) [(m, ps, r)]
      (incoming c) (incoming c')"
    unfolding answered_Cons_iff
    by (intro exI [of _ pre] exI [of _ dt] exI [of _ "incoming c'"]) simp
  then show ?thesis
    using call_method_fields [OF assms] by (simp add: conversation_def)
qed

lemma wait_loop_answer:
  assumes "incoming c = pre @ (Some r, dt) # rest"
    and "\<forall>p \<in> set pre. no_match rid (fst p)"
    and "in_time T (clock c - st) pre"
    and "received_request_id r = Inr (JStr rid)" and "is_result r"
  shows "\<exists>c'. wait_loop c rid T st = Some (Inr r, c') \<and> incoming c' = rest"
proof -
  define c3 where "c3 = c\<lparr>incoming := (Some r, dt) # rest,
      clock := clock c + elapsed pre (length pre)\<rparr>"
  have "wait_loop c rid T st = wait_loop c3 rid T st"
    unfolding c3_def using assms(1-3) by (intro wait_loop_skip) (simp_all add: in_time_elapsed)
  have "r \<noteq> []" using assms(5) by (auto simp: is_result_def)
  moreover have "handle_errors r = Inr ()" using assms(5) by (simp add: handle_errors_is_result)
  ultimately have "poll_step rid (Some r) = Inr (Some r)"
    using assms(4) by (simp add: poll_step_def)
  moreover have "incoming c3 = (Some r, dt) # rest" by (simp add: c3_def)
  moreover note \<open>wait_loop c rid T st = wait_loop c3 rid T st\<close>
  ultimately have "wait_loop c rid T st
      = Some (Inr r, c3\<lparr>incoming := rest, clock := clock c3 + dt\<rparr>)"
    by (simp add: wait_loop_Cons)
  then show ?thesis by simp
qed

lemma call_method_answer:
  assumes "answered (request_timeout c) (uuid_source c) (uuid_count c) ((m, ps, r) # xs)
             (incoming c) rest"
  shows "\<exists>c'. call_method c m None ps = Some (Inr r, c')
     \<and> answered (request_timeout c') (uuid_source c') (uuid_count c') xs (incoming c') rest"
proof -
  let ?rid = "uuid_source c (uuid_count c)"
  let ?c2 = "c\<lparr>uuid_count := Suc (uuid_count c), sent := sent c @ [request_data m ?rid ps]\<rparr>"
  have T: "py_or None (request_timeout c) = request_timeout c"
    by (simp add: py_or_def truthy_def)
  from assms obtain pre dt mid where p: "incoming c = pre @ (Some r, dt) # mid"
    "\<forall>p \<in> set pre. no_match ?rid (fst p)" "in_time (request_timeout c) 0 pre"
    "received_request_id r = Inr (JStr ?rid)" "is_result r"
    "answered (request_timeout c) (uuid_source c) (Suc (uuid_count c)) xs mid rest"
    unfolding answered_Cons_iff by blast
  have "\<exists>c'. wait_loop ?c2 ?rid (request_timeout c) (clock c) = Some (Inr r, c')
      \<and> incoming c' = mid"
    using p by (intro wait_loop_answer [where pre = pre and dt = dt]) simp_all
  then obtain c' where c': "call_method c m None ps = Some (Inr r, c')" "incoming c' = mid"
    by (auto simp: call_method_unfold T)
  from call_method_fields [OF c'(1)] p(6) c'(2)
  have "answered (request_timeout c') (uuid_source c') (uuid_count c') xs (incoming c') rest"
    by simp
  with c'(1) show ?thesis by blast
qed

lemma run_refl: "run c c [] 0"
  by (simp add: run_def conversation_def same_setup_def advanced_refl)

lemma run_call: "call_method c m None ps = Some (Inr r, c') \<Longrightarrow> run c c' [(m, ps, r)] 0"
  using call_method_conversation [of c m ps r c'] call_method_fields [of c m None ps "Inr r" c']
    call_method_advanced [of c m None ps "Inr r" c']
  by (simp add: run_def same_setup_def)

lemma run_sleep: "sleep c d = Inr c' \<Longrightarrow> run c c' [] d"
  using sleep_advanced [of c d c']
  by (auto simp: run_def conversation_def same_setup_def sleep_def split: if_splits)

lemma run_logger: "run c (logger c e) [] 0"
  using advanced_refl [of c]
  by (simp add: run_def conversation_def same_setup_def logger_def advanced_def)

lemma run_trans:
  assumes "run c c1 xs d1" and "run c1 c2 ys d2"
  shows "run c c2 (xs @ ys) (d1 + d2)"
proof -
  from assms(1) have a: "sent c1 = sent c @ requests (uuid_source c) (uuid_count c) xs"
    "answered (request_timeout c) (uuid_source c) (uuid_count c) xs (incoming c) (incoming c1)"
    "uuid_count c1 = uuid_count c + length xs" "same_setup c c1" "advanced c c1 d1"
    by (simp_all add: run_def conversation_def)
  from assms(2) have b: "sent c2 = sent c1 @ requests (uuid_source c1) (uuid_count c1) ys"
    "answered (request_timeout c1) (uuid_source c1) (uuid_count c1) ys (incoming c1) (incoming c2)"
    "uuid_count c2 = uuid_count c1 + length ys" "same_setup c1 c2" "advanced c1 c2 d2"
    by (simp_all add: run_def conversation_def)
  have s: "uuid_source c1 = uuid_source c" "request_timeout c1 = request_timeout c"
    using a(4) by (simp_all add: same_setup_def)
  have "sent c2 = sent c @ requests (uuid_source c) (uuid_count c) (xs @ ys)"
    using a(1,3) b(1) s by (simp add: requests_append)
  moreover have "answered (request_timeout c) (uuid_source c) (uuid_count c) (xs @ ys)
      (incoming c) (incoming c2)"
    unfolding answered_append using a(2,3) b(2) s by auto
  moreover have "uuid_count c2 = uuid_count c + length (xs @ ys)" using a(3) b(3) by simp
  moreover have "same_setup c c2" using a(4) b(4) by (simp add: same_setup_def)
  moreover have "advanced c c2 (d1 + d2)" using a(5) b(5) by (rule advanced_trans)
  ultimately show ?thesis by (simp add: run_def conversation_def)
qed

section \<open>Chat listing: pages, duplicates and the cursor\<close>

lemma py_key_the_key: "py_key v = Inr k \<Longrightarrow> k = the_key v"
  by (auto simp: py_key_def the_key_def split: json.splits)

lemma new_ids_append:
  "new_ids added (xs @ ys) = new_ids added xs @ new_ids (added \<union> the_key ` set xs) ys"
  by (induction xs arbitrary: added) (auto simp: insert_absorb)

lemma new_ids_keys: "the_key ` set (new_ids added xs) = the_key ` set xs - added"
  by (induction xs arbitrary: added) auto

lemma new_ids_distinct: "distinct (map the_key (new_ids added xs))"
proof (induction xs arbitrary: added)
  case Nil
  show ?case by simp
next
  case (Cons x xs)
  have "the_key x \<notin> the_key ` set (new_ids (insert (the_key x) added) xs)"
    by (simp add: new_ids_keys)
  with Cons show ?case by simp
qed

lemma new_ids_subseq: "subseq (new_ids added xs) xs"
  by (induction xs arbitrary: added) auto

declare chats_loop.simps [simp del]

lemma chats_loop_step:
  assumes "chats_loop c ps ord chats added = Some (Inr out, c')"
  shows "\<exists>result c1 l ids chats' added' c2.
    call_method c ''getChats'' None
       [(''offset_order'', ord), (''offset_chat_id'', JInt 0), (''limit'', JInt ps)]
     = Some (Inr result, c1)
    \<and> dict_item result ''chat_ids'' = Inr l \<and> py_iter l = Inr ids
    \<and> fetch_chats c1 ids chats added = Some (Inr (chats', added'), c2)
    \<and> (full_page ps ids \<longrightarrow>
         (\<exists>order c3. last_order chats' = Inr order \<and> sleep c2 (request_delay c2) = Inr c3
           \<and> chats_loop c3 ps order chats' added' = Some (Inr out, c')))
    \<and> (\<not> full_page ps ids \<longrightarrow> out = chats' \<and> c' = c2)"
  using assms
  by (subst (asm) chats_loop.simps)
     (auto split: option.splits sum.splits prod.splits if_splits simp: full_page_def)

lemma py_key_hashable: "(py_key x = Inr k) = (hashable x \<and> k = the_key x)"
  by (auto simp: py_key_def hashable_def the_key_def split: json.splits)

lemma fetch_chats_run:
  "fetch_chats c ids chats added = Some (Inr (chats', added'), c') \<Longrightarrow>
   \<exists>lookups. map fst lookups = new_ids added ids \<and> chats' = chats @ map snd lookups
     \<and> added' = added \<union> the_key ` set ids \<and> (\<forall>x \<in> set ids. hashable x)
     \<and> run c c' (map lookup_exchange lookups) 0"
proof (induction ids arbitrary: c chats added)
  case Nil
  then show ?case by (simp add: run_refl)
next
  case (Cons i ids)
  from Cons.prems obtain k where "py_key i = Inr k"
    by (auto split: sum.splits)
  then have k: "py_key i = Inr (the_key i)" and h: "hashable i"
    by (simp_all add: py_key_hashable)
  show ?case
  proof (cases "the_key i \<in> added")
    case True
    with Cons.prems k have "fetch_chats c ids chats added = Some (Inr (chats', added'), c')"
      by simp
    from Cons.IH [OF this] True h show ?thesis by (auto simp: insert_absorb)
  next
    case False
    with Cons.prems k obtain r c1 where
      r: "call_method c ''getChat'' None [(''chat_id'', i)] = Some (Inr r, c1)"
      and f: "fetch_chats c1 ids (chats @ [r]) (insert (the_key i) added)
                = Some (Inr (chats', added'), c')"
      by (auto split: option.splits sum.splits prod.splits)
    from Cons.IH [OF f] obtain lookups where
      l: "map fst lookups = new_ids (insert (the_key i) added) ids"
      "chats' = (chats @ [r]) @ map snd lookups"
      "added' = insert (the_key i) added \<union> the_key ` set ids"
      "\<forall>x \<in> set ids. hashable x"
      "run c1 c' (map lookup_exchange lookups) 0"
      by blast
    from run_trans [OF run_call [OF r] l(5)]
    have "run c c' (map lookup_exchange ((i, r) # lookups)) 0"
      by (simp add: lookup_exchange_def)
    with l False h show ?thesis
      by (intro exI [of _ "(i, r) # lookups"]) simp
  qed
qed

lemma fetch_chats_answer:
  assumes "\<forall>x \<in> set ids. hashable x" and "map fst lookups = new_ids added ids"
    and "answered (request_timeout c) (uuid_source c) (uuid_count c)
           (map lookup_exchange lookups @ later) (incoming c) rest"
  shows "\<exists>c'. fetch_chats c ids chats added
        = Some (Inr (chats @ map snd lookups, added \<union> the_key ` set ids), c')
     \<and> answered (request_timeout c') (uuid_source c') (uuid_count c') later (incoming c') rest
     \<and> request_delay c' = request_delay c"
  using assms
proof (induction ids arbitrary: c chats added lookups)
  case Nil
  then show ?case by simp
next
  case (Cons i ids)
  from Cons.prems(1) have k: "py_key i = Inr (the_key i)" and h: "\<forall>x \<in> set ids. hashable x"
    by (simp_all add: py_key_hashable)
  show ?case
  proof (cases "the_key i \<in> added")
    case True
    with Cons.prems(2) have "map fst lookups = new_ids added ids" by simp
    from Cons.IH [OF h this Cons.prems(3), of chats] True k show ?thesis
      by (simp add: insert_absorb)
  next
    case False
    with Cons.prems(2) obtain l lookups' where l: "lookups = l # lookups'" "fst l = i"
      "map fst lookups' = new_ids (insert (the_key i) added) ids"
      by (cases lookups) auto
    have le: "lookup_exchange l = (''getChat'', [(''chat_id'', i)], snd l)"
      using l(2) by (simp add: lookup_exchange_def)
    have "answered (request_timeout c) (uuid_source c) (uuid_count c)
        ((''getChat'', [(''chat_id'', i)], snd l) # (map lookup_exchange lookups' @ later))
        (incoming c) rest"
      using Cons.prems(3) l(1) by (simp add: le)
    from call_method_answer [OF this] obtain c1 where
      c1: "call_method c ''getChat'' None [(''chat_id'', i)] = Some (Inr (snd l), c1)"
      "answered (request_timeout c1) (uuid_source c1) (uuid_count c1)
         (map lookup_exchange lookups' @ later) (incoming c1) rest"
      by blast
    from Cons.IH [OF h l(3) c1(2), of "chats @ [snd l]"] obtain c' where
      c': "fetch_chats c1 ids (chats @ [snd l]) (insert (the_key i) added)
        = Some (Inr ((chats @ [snd l]) @ map snd lookups',
                     insert (the_key i) added \<union> the_key ` set ids), c')"
      "answered (request_timeout c') (uuid_source c') (uuid_count c') later (incoming c') rest"
      "request_delay c' = request_delay c1"
      by blast
    have "request_delay c1 = request_delay c" using call_method_fields [OF c1(1)] by simp
    with c' c1(1) k False l show ?thesis by simp
  qed
qed

lemma ids_before_Suc: "ids_before (p # trace) (Suc i) = page_ids p @ ids_before trace i"
  by (simp add: ids_before_def)

lemma cursor_at_Suc:
  "cursor_at start chats (p # trace) (Suc i) =
     (if i = 0 then cursor_at start chats (p # trace) 1
      else cursor_at start' (chats @ map snd (page_lookups p)) trace i)"
  by (simp add: cursor_at_def chats_before_def)

lemma well_paged_Cons:
  "well_paged ps start chats added (p # trace) =
     (page_cursor p = start
      \<and> (\<exists>l. map_of (page_answer p) ''chat_ids'' = Some l \<and> py_iter l = Inr (page_ids p))
      \<and> (\<forall>x \<in> set (page_ids p). hashable x)
      \<and> map fst (page_lookups p) = new_ids added (page_ids p)
      \<and> (trace \<noteq> []) = full_page ps (page_ids p)
      \<and> (trace \<noteq> [] \<longrightarrow>
           cursor_at start chats (p # trace) 1 = Some (page_cursor (hd trace))
         \<and> well_paged ps (page_cursor (hd trace)) (chats @ map snd (page_lookups p))
              (added \<union> the_key ` set (page_ids p)) trace))"
proof (cases trace)
  case Nil
  then show ?thesis
    by (auto simp: well_paged_def cursor_at_def ids_before_def)
next
  case (Cons q rest)
  let ?s = "page_cursor (hd trace)"
  let ?chats = "chats @ map snd (page_lookups p)"
  let ?added = "added \<union> the_key ` set (page_ids p)"
  let ?R = "\<lambda>(tr::page list) a i.
      (\<exists>l. map_of (page_answer (tr ! i)) ''chat_ids'' = Some l
           \<and> py_iter l = Inr (page_ids (tr ! i)))
    \<and> (\<forall>x \<in> set (page_ids (tr ! i)). hashable x)
    \<and> map fst (page_lookups (tr ! i))
        = new_ids (a \<union> the_key ` set (ids_before tr i)) (page_ids (tr ! i))
    \<and> (Suc i < length tr) = full_page ps (page_ids (tr ! i))"
  have R: "?R (p # trace) added (Suc i) = ?R trace ?added i" for i
    by (simp add: ids_before_Suc image_Un Un_assoc)
  have C: "(cursor_at start chats (p # trace) (Suc i) = Some (page_cursor ((p # trace) ! Suc i)))
      = (if i = 0 then cursor_at start chats (p # trace) 1 = Some ?s
         else cursor_at ?s ?chats trace i = Some (page_cursor (trace ! i)))" for i
    using Cons by (subst cursor_at_Suc [where start' = ?s]) simp
  have C0: "cursor_at ?s ?chats trace 0 = Some (page_cursor (trace ! 0))"
    using Cons by (simp add: cursor_at_def)
  have w: "well_paged ps start chats added (p # trace) =
      ((cursor_at start chats (p # trace) 0 = Some (page_cursor p) \<and> ?R (p # trace) added 0)
       \<and> (\<forall>i<length trace.
            cursor_at start chats (p # trace) (Suc i) = Some (page_cursor ((p # trace) ! Suc i))
            \<and> ?R (p # trace) added (Suc i)))"
    unfolding well_paged_def by (simp add: All_less_Suc2)
  have w': "well_paged ps ?s ?chats ?added trace =
      (\<forall>i<length trace. cursor_at ?s ?chats trace i = Some (page_cursor (trace ! i))
          \<and> ?R trace ?added i)"
    unfolding well_paged_def using Cons by simp
  have q: "(\<forall>i<length trace.
            cursor_at start chats (p # trace) (Suc i) = Some (page_cursor ((p # trace) ! Suc i))
            \<and> ?R (p # trace) added (Suc i))
      = (cursor_at start chats (p # trace) 1 = Some ?s
         \<and> (\<forall>i<length trace. cursor_at ?s ?chats trace i = Some (page_cursor (trace ! i))
               \<and> ?R trace ?added i))"
    (is "?L = ?M")
  proof
    assume l: ?L
    have "0 < length trace" using Cons by simp
    with l have "cursor_at start chats (p # trace) (Suc 0) = Some (page_cursor ((p # trace) ! Suc 0))"
      by blast
    then have one: "cursor_at start chats (p # trace) 1 = Some ?s" using C [of 0] by simp
    have "\<forall>i<length trace. cursor_at ?s ?chats trace i = Some (page_cursor (trace ! i))
               \<and> ?R trace ?added i"
    proof (intro allI impI)
      fix i assume i: "i < length trace"
      with l have a: "cursor_at start chats (p # trace) (Suc i)
            = Some (page_cursor ((p # trace) ! Suc i))" and b: "?R (p # trace) added (Suc i)"
        by blast+
      from b have b': "?R trace ?added i" unfolding R .
      from a have "cursor_at ?s ?chats trace i = Some (page_cursor (trace ! i))"
        using C [of i] C0 by (cases "i = 0") simp_all
      with b' show "cursor_at ?s ?chats trace i = Some (page_cursor (trace ! i))
               \<and> ?R trace ?added i" by blast
    qed
    with one show ?M by blast
  next
    assume m: ?M
    show ?L
    proof (intro allI impI)
      fix i assume i: "i < length trace"
      with m have a: "cursor_at ?s ?chats trace i = Some (page_cursor (trace ! i))"
        and b: "?R trace ?added i" by blast+
      from b have b': "?R (p # trace) added (Suc i)" unfolding R .
      from a m have "cursor_at start chats (p # trace) (Suc i)
            = Some (page_cursor ((p # trace) ! Suc i))"
        unfolding C [of i] by (cases "i = 0") simp_all
      with b' show "cursor_at start chats (p # trace) (Suc i)
            = Some (page_cursor ((p # trace) ! Suc i)) \<and> ?R (p # trace) added (Suc i)"
        by blast
    qed
  qed
  have z: "(cursor_at start chats (p # trace) 0 = Some (page_cursor p) \<and> ?R (p # trace) added 0)
      = (page_cursor p = start
      \<and> (\<exists>l. map_of (page_answer p) ''chat_ids'' = Some l \<and> py_iter l = Inr (page_ids p))
      \<and> (\<forall>x \<in> set (page_ids p). hashable x)
      \<and> map fst (page_lookups p) = new_ids added (page_ids p)
      \<and> (trace \<noteq> []) = full_page ps (page_ids p))"
    by (auto simp: cursor_at_def ids_before_def)
  show ?thesis
    unfolding w q z w' using Cons by auto
qed


lemma well_paged_hd:
  "well_paged ps start chats added trace \<Longrightarrow> trace \<noteq> [] \<and> page_cursor (hd trace) = start"
  by (cases trace) (auto simp: well_paged_Cons, simp add: well_paged_def)

lemma listing_exchanges_Cons:
  "listing_exchanges ps (p # trace) = page_exchanges ps p @ listing_exchanges ps trace"
  by (simp add: listing_exchanges_def)

lemma last_order_Some:
  "(last_order chats = Inr order) = (chats \<noteq> [] \<and> map_of (last chats) ''order'' = Some order)"
  by (auto simp: last_order_def dict_item_def split: option.splits)

lemma chats_loop_run:
  "chats_loop c ps ord chats added = Some (Inr out, c') \<Longrightarrow>
   \<exists>trace. well_paged ps ord chats added trace
     \<and> run c c' (listing_exchanges ps trace) (real (length trace - 1) * request_delay c)
     \<and> out = chats @ map snd (concat (map page_lookups trace))"
proof (induction c ps ord chats added rule: chats_loop.induct)
  case (1 c ps ord chats added)
  from chats_loop_step [OF "1.prems"] obtain result c1 l ids chats' added' c2 where
    call: "call_method c ''getChats'' None
       [(''offset_order'', ord), (''offset_chat_id'', JInt 0), (''limit'', JInt ps)]
     = Some (Inr result, c1)"
    and l: "dict_item result ''chat_ids'' = Inr l" and ids: "py_iter l = Inr ids"
    and fetch: "fetch_chats c1 ids chats added = Some (Inr (chats', added'), c2)"
    and full: "full_page ps ids \<longrightarrow>
       (\<exists>order c3. last_order chats' = Inr order \<and> sleep c2 (request_delay c2) = Inr c3
         \<and> chats_loop c3 ps order chats' added' = Some (Inr out, c'))"
    and short: "\<not> full_page ps ids \<longrightarrow> out = chats' \<and> c' = c2"
    by blast
  from fetch_chats_run [OF fetch] obtain lookups where
    lk: "map fst lookups = new_ids added ids" "chats' = chats @ map snd lookups"
    "added' = added \<union> the_key ` set ids" "\<forall>x \<in> set ids. hashable x"
    "run c1 c2 (map lookup_exchange lookups) 0"
    by blast
  define p where "p = \<lparr>page_cursor = ord, page_answer = result, page_ids = ids,
      page_lookups = lookups\<rparr>"
  have p: "page_cursor p = ord" "page_answer p = result" "page_ids p = ids"
    "page_lookups p = lookups"
    by (simp_all add: p_def)
  have ml: "map_of result ''chat_ids'' = Some l"
    using l by (simp add: dict_item_def split: option.splits)
  from run_trans [OF run_call [OF call] lk(5)]
  have r2: "run c c2 (page_exchanges ps p) 0"
    by (simp add: page_exchanges_def p)
  show ?case
  proof (cases "full_page ps ids")
    case False
    with short have o: "out = chats'" "c' = c2" by simp_all
    have "well_paged ps ord chats added [p]"
      unfolding well_paged_Cons using p ml ids lk False by simp
    moreover have "run c c' (listing_exchanges ps [p]) (real (length [p] - 1) * request_delay c)"
      using r2 o by (simp add: listing_exchanges_def)
    moreover have "out = chats @ map snd (concat (map page_lookups [p]))"
      using o lk(2) p by simp
    ultimately show ?thesis by blast
  next
    case True
    with full obtain order c3 where
      order: "last_order chats' = Inr order" and sl: "sleep c2 (request_delay c2) = Inr c3"
      and rest: "chats_loop c3 ps order chats' added' = Some (Inr out, c')"
      by blast
    have "\<exists>trace. well_paged ps order chats' added' trace
     \<and> run c3 c' (listing_exchanges ps trace) (real (length trace - 1) * request_delay c3)
     \<and> out = chats' @ map snd (concat (map page_lookups trace))"
    proof (rule "1.IH")
      show "call_method c ''getChats'' None
         [(''offset_order'', ord), (''offset_chat_id'', JInt 0), (''limit'', JInt ps)]
        = Some (Inr result, c1)" by (rule call)
      show "(Inr result, c1) = (Inr result, c1)" ..
      show "Inr result = Inr result" ..
      show "dict_item result ''chat_ids'' = Inr l" by (rule l)
      show "py_iter l = Inr ids" by (rule ids)
      show "fetch_chats c1 ids chats added = Some (Inr (chats', added'), c2)" by (rule fetch)
      show "(Inr (chats', added'), c2) = (Inr (chats', added'), c2)" ..
      show "Inr (chats', added') = Inr (chats', added')" ..
      show "(chats', added') = (chats', added')" ..
      show "ids \<noteq> [] \<and> \<not> int (length ids) < ps" using True by (simp add: full_page_def)
      show "last_order chats' = Inr order" by (rule order)
      show "sleep c2 (request_delay c2) = Inr c3" by (rule sl)
      show "chats_loop c3 ps order chats' added' = Some (Inr out, c')" by (rule rest)
    qed
    then obtain trace where
      t: "well_paged ps order chats' added' trace"
      "run c3 c' (listing_exchanges ps trace) (real (length trace - 1) * request_delay c3)"
      "out = chats' @ map snd (concat (map page_lookups trace))"
      by blast
    from well_paged_hd [OF t(1)] have hd: "trace \<noteq> []" "page_cursor (hd trace) = order"
      by simp_all
    have rd2: "request_delay c2 = request_delay c"
      using r2 by (simp add: run_def same_setup_def)
    from run_sleep [OF sl] have r3: "run c2 c3 [] (request_delay c)" by (simp add: rd2)
    then have rd3: "request_delay c3 = request_delay c"
      using rd2 by (simp add: run_def same_setup_def)
    have cur: "cursor_at ord chats (p # trace) 1 = Some (page_cursor (hd trace))"
      using order lk(2) hd(2) by (simp add: cursor_at_def chats_before_def p last_order_Some)
    have "well_paged ps ord chats added (p # trace)"
      unfolding well_paged_Cons using p ml ids lk True hd cur t(1) by simp
    moreover from run_trans [OF run_trans [OF r2 r3] t(2)]
    have "run c c' (listing_exchanges ps (p # trace))
        (request_delay c + real (length trace - 1) * request_delay c)"
      by (simp add: listing_exchanges_Cons rd3)
    then have "run c c' (listing_exchanges ps (p # trace))
        (real (length (p # trace) - 1) * request_delay c)"
      using hd(1) by (cases trace) (simp_all add: algebra_simps)
    moreover have "out = chats @ map snd (concat (map page_lookups (p # trace)))"
      using t(3) lk(2) p by simp
    ultimately show ?thesis by blast
  qed
qed

lemma chats_loop_answer:
  assumes "0 \<le> request_delay c" and "well_paged ps ord chats added trace"
    and "answered (request_timeout c) (uuid_source c) (uuid_count c)
           (listing_exchanges ps trace) (incoming c) rest"
  shows "\<exists>c'. chats_loop c ps ord chats added
        = Some (Inr (chats @ map snd (concat (map page_lookups trace))), c')
     \<and> incoming c' = rest"
  using assms
proof (induction trace arbitrary: c ord chats added)
  case Nil
  then show ?case by (simp add: well_paged_def)
next
  case (Cons p trace)
  let ?chats = "chats @ map snd (page_lookups p)"
  let ?added = "added \<union> the_key ` set (page_ids p)"
  from Cons.prems(2) obtain l where
    w: "page_cursor p = ord" "map_of (page_answer p) ''chat_ids'' = Some l"
    "py_iter l = Inr (page_ids p)" "\<forall>x \<in> set (page_ids p). hashable x"
    "map fst (page_lookups p) = new_ids added (page_ids p)"
    "(trace \<noteq> []) = full_page ps (page_ids p)"
    and nx: "trace \<noteq> [] \<longrightarrow>
           cursor_at ord chats (p # trace) 1 = Some (page_cursor (hd trace))
         \<and> well_paged ps (page_cursor (hd trace)) ?chats ?added trace"
    unfolding well_paged_Cons by blast
  have "answered (request_timeout c) (uuid_source c) (uuid_count c)
      ((''getChats'', [(''offset_order'', ord), (''offset_chat_id'', JInt 0),
          (''limit'', JInt ps)], page_answer p)
       # (map lookup_exchange (page_lookups p) @ listing_exchanges ps trace))
      (incoming c) rest"
    using Cons.prems(3) w(1) by (simp add: listing_exchanges_Cons page_exchanges_def)
  from call_method_answer [OF this] obtain c1 where
    c1: "call_method c ''getChats'' None
       [(''offset_order'', ord), (''offset_chat_id'', JInt 0), (''limit'', JInt ps)]
      = Some (Inr (page_answer p), c1)"
    "answered (request_timeout c1) (uuid_source c1) (uuid_count c1)
       (map lookup_exchange (page_lookups p) @ listing_exchanges ps trace) (incoming c1) rest"
    by blast
  from fetch_chats_answer [OF w(4) w(5) c1(2), of chats] obtain c2 where
    c2: "fetch_chats c1 (page_ids p) chats added = Some (Inr (?chats, ?added), c2)"
    "answered (request_timeout c2) (uuid_source c2) (uuid_count c2)
       (listing_exchanges ps trace) (incoming c2) rest"
    "request_delay c2 = request_delay c1"
    by blast
  have rd: "request_delay c2 = request_delay c"
    using call_method_fields [OF c1(1)] c2(3) by simp
  have di: "dict_item (page_answer p) ''chat_ids'' = Inr l"
    using w(2) by (simp add: dict_item_def)
  show ?case
  proof (cases "trace = []")
    case True
    with w(6) have nf: "\<not> (page_ids p \<noteq> [] \<and> \<not> int (length (page_ids p)) < ps)"
      by (simp add: full_page_def)
    from c2(2) True have "incoming c2 = rest" by (simp add: listing_exchanges_def)
    moreover have "chats_loop c ps ord chats added = Some (Inr ?chats, c2)"
      using c1(1) di w(3) c2(1) nf by (subst chats_loop.simps) auto
    ultimately show ?thesis using True by simp
  next
    case False
    with w(6) have f: "page_ids p \<noteq> [] \<and> \<not> int (length (page_ids p)) < ps"
      by (simp add: full_page_def)
    from False nx have cur: "cursor_at ord chats (p # trace) 1 = Some (page_cursor (hd trace))"
      and wp: "well_paged ps (page_cursor (hd trace)) ?chats ?added trace"
      by simp_all
    from cur have lo: "last_order ?chats = Inr (page_cursor (hd trace))"
      by (simp add: cursor_at_def chats_before_def last_order_Some split: if_splits)
    define c3 where "c3 = c2\<lparr>clock := clock c2 + request_delay c2\<rparr>"
    have sl: "sleep c2 (request_delay c2) = Inr c3"
      using Cons.prems(1) rd by (simp add: sleep_def c3_def)
    have "\<exists>c'. chats_loop c3 ps (page_cursor (hd trace)) ?chats ?added
        = Some (Inr (?chats @ map snd (concat (map page_lookups trace))), c')
       \<and> incoming c' = rest"
      using Cons.prems(1) rd wp c2(2) by (intro Cons.IH) (simp_all add: c3_def)
    then obtain c' where c': "chats_loop c3 ps (page_cursor (hd trace)) ?chats ?added
        = Some (Inr (?chats @ map snd (concat (map page_lookups trace))), c')"
      "incoming c' = rest"
      by blast
    have "chats_loop c ps ord chats added
        = Some (Inr (?chats @ map snd (concat (map page_lookups trace))), c')"
      using c1(1) di w(3) c2(1) f lo sl c'(1) by (subst chats_loop.simps) simp
    with c'(2) show ?thesis by simp
  qed
qed


lemma well_paged_lookups:
  "well_paged ps start chats added trace \<Longrightarrow>
   map fst (concat (map page_lookups trace)) = new_ids added (concat (map page_ids trace))"
proof (induction trace arbitrary: start chats added)
  case Nil
  then show ?case by (simp add: well_paged_def)
next
  case (Cons p trace)
  show ?case
  proof (cases "trace = []")
    case True
    with Cons.prems show ?thesis by (simp add: well_paged_Cons)
  next
    case False
    with Cons.prems have a: "map fst (page_lookups p) = new_ids added (page_ids p)"
      and b: "well_paged ps (page_cursor (hd trace)) (chats @ map snd (page_lookups p))
              (added \<union> the_key ` set (page_ids p)) trace"
      by (simp_all add: well_paged_Cons)
    from Cons.IH [OF b] a show ?thesis by (simp add: new_ids_append)
  qed
qed

text \<open>
  C5. When \<open>get_all_chats\<close> returns a list, the run went through pages \<open>trace\<close>, and what
  passed between the client and the channel during the call is exactly the conversation
  of these pages: for each page one \<open>getChats\<close> request with the page's cursor, chat
  offset 0 and limit \<open>page_size\<close>, answered by the page, and then one \<open>getChat\<close> request
  for each identifier of the page that no earlier identifier had the key of. The first
  cursor is \<open>2^63 - 1\<close>, and the cursor of every later page is the \<open>order\<close> field of the
  last chat accumulated when the page before it was done. A page is followed by another
  one exactly when it is non-empty and not shorter than the page size, so the last page,
  and only the last, is empty or short. The list returned holds the chats returned by the
  lookups, in the order of the requests; the identifiers looked up are those of the pages,
  each key once, where it first occurs, in the order of the pages, also when pages overlap.
  The clock has moved by the time of the polls used and by one \<open>request_delay\<close> for each
  page but the last.

  Conversely the listing terminates with that list: with a page size above 1 and a delay
  that is not negative, whenever the channel answers the requests of such pages, the last
  of them empty or short, \<open>get_all_chats\<close> returns the chats of the lookups and has used up
  just the polls of these answers.
\<close>

theorem get_all_chats_listing:
  "(get_all_chats c page_size = Some (Inr chats, c') \<longrightarrow>
      (\<exists>trace.
         well_paged page_size (JInt (2 ^ 63 - 1)) [] {} trace
       \<and> conversation c c' (listing_exchanges page_size trace)
       \<and> chats = map snd (concat (map page_lookups trace))
       \<and> map fst (concat (map page_lookups trace)) = new_ids {} (concat (map page_ids trace))
       \<and> distinct (map the_key (map fst (concat (map page_lookups trace))))
       \<and> subseq (map fst (concat (map page_lookups trace))) (concat (map page_ids trace))
       \<and> the_key ` set (map fst (concat (map page_lookups trace)))
           = the_key ` set (concat (map page_ids trace))
       \<and> advanced c c' (real (length trace - 1) * request_delay c)))
 \<and> (1 < page_size \<and> 0 \<le> request_delay c
      \<and> well_paged page_size (JInt (2 ^ 63 - 1)) [] {} trace
      \<and> answered (request_timeout c) (uuid_source c) (uuid_count c)
           (listing_exchanges page_size trace) (incoming c) rest \<longrightarrow>
      (\<exists>c'. get_all_chats c page_size
                = Some (Inr (map snd (concat (map page_lookups trace))), c')
            \<and> incoming c' = rest))"
proof (intro conjI impI)
  assume r: "get_all_chats c page_size = Some (Inr chats, c')"
  then have "chats_loop c page_size (JInt (2 ^ 63 - 1)) [] {} = Some (Inr chats, c')"
    by (simp add: get_all_chats_def split: if_splits)
  from chats_loop_run [OF this] obtain trace where
    t: "well_paged page_size (JInt (2 ^ 63 - 1)) [] {} trace"
    "run c c' (listing_exchanges page_size trace) (real (length trace - 1) * request_delay c)"
    "chats = [] @ map snd (concat (map page_lookups trace))"
    by blast
  note lk = well_paged_lookups [OF t(1)]
  have "distinct (map the_key (map fst (concat (map page_lookups trace))))"
    "subseq (map fst (concat (map page_lookups trace))) (concat (map page_ids trace))"
    "the_key ` set (map fst (concat (map page_lookups trace)))
           = the_key ` set (concat (map page_ids trace))"
    unfolding lk by (simp_all add: new_ids_distinct new_ids_subseq new_ids_keys)
  with t lk show "\<exists>trace.
         well_paged page_size (JInt (2 ^ 63 - 1)) [] {} trace
       \<and> conversation c c' (listing_exchanges page_size trace)
       \<and> chats = map snd (concat (map page_lookups trace))
       \<and> map fst (concat (map page_lookups trace)) = new_ids {} (concat (map page_ids trace))
       \<and> distinct (map the_key (map fst (concat (map page_lookups trace))))
       \<and> subseq (map fst (concat (map page_lookups trace))) (concat (map page_ids trace))
       \<and> the_key ` set (map fst (concat (map page_lookups trace)))
           = the_key ` set (concat (map page_ids trace))
       \<and> advanced c c' (real (length trace - 1) * request_delay c)"
    by (intro exI [of _ trace]) (simp add: run_def)
next
  assume a: "1 < page_size \<and> 0 \<le> request_delay c
      \<and> well_paged page_size (JInt (2 ^ 63 - 1)) [] {} trace
      \<and> answered (request_timeout c) (uuid_source c) (uuid_count c)
           (listing_exchanges page_size trace) (incoming c) rest"
  then have "\<exists>c'. chats_loop c page_size (JInt (2 ^ 63 - 1)) [] {}
        = Some (Inr ([] @ map snd (concat (map page_lookups trace))), c')
     \<and> incoming c' = rest"
    by (intro chats_loop_answer) simp_all
  with a show "\<exists>c'. get_all_chats c page_size
                = Some (Inr (map snd (concat (map page_lookups trace))), c')
            \<and> incoming c' = rest"
    by (simp add: get_all_chats_def)
qed

lemma answers_ok:
  "chat_ids_answer rid ids \<noteq> []" "chat_answer rid i ord \<noteq> []"
  "received_request_id (chat_ids_answer rid ids) = Inr (JStr rid)"
  "received_request_id (chat_answer rid i ord) = Inr (JStr rid)"
  "handle_errors (chat_ids_answer rid ids) = Inr ()"
  "handle_errors (chat_answer rid i ord) = Inr ()"
  "dict_item (chat_ids_answer rid ids) ''chat_ids'' = Inr (JList (map JInt ids))"
  "dict_item (chat_answer rid i ord) ''order'' = Inr (JInt ord)"
  by (simp_all add: chat_ids_answer_def chat_answer_def received_request_id_def dict_get_def
      json_get_def handle_errors_def dict_item_def)

lemma two_pages_well_paged: "well_paged 2 (JInt (2 ^ 63 - 1)) [] {} two_pages_trace"
  by (simp add: two_pages_trace_def well_paged_Cons cursor_at_def chats_before_def full_page_def
      hashable_def the_key_def py_iter_def answers_ok chat_ids_answer_def chat_answer_def)

lemma two_pages_answered:
  "answered (Some 60) uuid_of 0 (listing_exchanges 2 two_pages_trace) two_pages []"
  by (simp add: two_pages_trace_def two_pages_def listing_exchanges_def page_exchanges_def
      lookup_exchange_def answered.simps no_match_def uuid_of_def is_result_def
      chat_ids_answer_def chat_answer_def received_request_id_def dict_get_def json_get_def)

theorem get_all_chats_listing_witness:
  "\<exists>c'. get_all_chats (test_client (Some 60) two_pages) 2
           = Some (Inr [chat_answer ''aa'' 1 20, chat_answer ''aaa'' 2 10], c')
      \<and> incoming c' = []
      \<and> (\<exists>trace :: page list. conversation (test_client (Some 60) two_pages) c' (listing_exchanges 2 trace)
            \<and> [chat_answer ''aa'' 1 20, chat_answer ''aaa'' 2 10]
                = map snd (concat (map page_lookups trace))
            \<and> distinct (map the_key (map fst (concat (map page_lookups trace))))
            \<and> advanced (test_client (Some 60) two_pages) c' (real (length trace - 1) * (1 / 2)))"
proof -
  let ?c = "test_client (Some 60) two_pages"
  let ?chats = "[chat_answer ''aa'' 1 20, chat_answer ''aaa'' 2 10]"
  have h: "1 < (2::int) \<and> 0 \<le> request_delay ?c
      \<and> well_paged 2 (JInt (2 ^ 63 - 1)) [] {} two_pages_trace
      \<and> answered (request_timeout ?c) (uuid_source ?c) (uuid_count ?c)
           (listing_exchanges 2 two_pages_trace) (incoming ?c) []"
    using two_pages_well_paged two_pages_answered by (simp add: test_client_def)
  have m: "map snd (concat (map page_lookups two_pages_trace)) = ?chats"
    by (simp add: two_pages_trace_def)
  from get_all_chats_listing [where c = ?c and page_size = 2 and trace = two_pages_trace
      and rest = "[]", THEN conjunct2] h m
  obtain c' where r: "get_all_chats ?c 2 = Some (Inr ?chats, c')" "incoming c' = []"
    by auto
  from get_all_chats_listing [where c = ?c and page_size = 2 and chats = ?chats
      and c' = c', THEN conjunct1, THEN mp, OF r(1)]
  obtain trace :: "page list" where
    "conversation ?c c' (listing_exchanges 2 trace)"
    "?chats = map snd (concat (map page_lookups trace))"
    "distinct (map the_key (map fst (concat (map page_lookups trace))))"
    "advanced ?c c' (real (length trace - 1) * request_delay ?c)"
    by (elim exE conjE) (rule that, assumption+)
  moreover have "request_delay ?c = 1 / 2" by (simp add: test_client_def)
  ultimately have "\<exists>trace :: page list. conversation ?c c' (listing_exchanges 2 trace)
            \<and> ?chats = map snd (concat (map page_lookups trace))
            \<and> distinct (map the_key (map fst (concat (map page_lookups trace))))
            \<and> advanced ?c c' (real (length trace - 1) * (1 / 2))"
    by (intro exI [of _ trace]) simp
  with r show ?thesis by (intro exI [of _ c'] conjI)
qed

section \<open>Group members: pages, duplicates and the total\<close>

lemma json_item_user_id: "(json_item m ''user_id'' = Inr u) = (user_id_of m = Some u)"
  by (auto simp: json_item_def dict_item_def user_id_of_def split: json.splits option.splits)

lemma new_members_append:
  "new_members added (xs @ ys)
     = new_members added xs @ new_members (added \<union> member_key ` set xs) ys"
  by (induction xs arbitrary: added) (auto simp: insert_absorb)

lemma new_members_keys:
  "member_key ` set (new_members added xs) = member_key ` set xs - added"
  by (induction xs arbitrary: added) auto

lemma new_members_distinct: "distinct (map member_key (new_members added xs))"
proof (induction xs arbitrary: added)
  case Nil
  show ?case by simp
next
  case (Cons x xs)
  have "member_key x \<notin> member_key ` set (new_members (insert (member_key x) added) xs)"
    by (simp add: new_members_keys)
  with Cons show ?case by simp
qed

lemma new_members_subseq: "subseq (new_members added xs) xs"
  by (induction xs arbitrary: added) auto

lemma new_members_identified:
  "\<forall>m \<in> set xs. identified m \<Longrightarrow> \<forall>m \<in> set (new_members added xs). identified m"
  by (induction xs arbitrary: added) auto

lemma add_members_iff:
  "(add_members items members added = Inr (members', added')) =
     ((\<forall>m \<in> set items. identified m) \<and> members' = members @ new_members added items
      \<and> added' = added \<union> member_key ` set items)"
proof (induction items arbitrary: members added)
  case Nil
  show ?case by auto
next
  case (Cons m ms)
  show ?case
  proof (cases "identified m")
    case False
    then have "add_members (m # ms) members added \<noteq> Inr (members', added')"
      by (auto simp: identified_def json_item_user_id py_key_hashable
          split: sum.splits option.splits)
    with False show ?thesis by simp
  next
    case True
    then obtain u where u: "user_id_of m = Some u" "hashable u"
      by (auto simp: identified_def split: option.splits)
    then have j: "json_item m ''user_id'' = Inr u" "py_key u = Inr (the_key u)"
      "member_key m = the_key u"
      by (simp_all add: json_item_user_id py_key_hashable user_id_def member_key_def)
    show ?thesis
      using True j Cons.IH [of "members @ [m]" "insert (the_key u) added"]
        Cons.IH [of members added]
      by (auto simp: insert_absorb)
  qed
qed

lemma get_users_run:
  "get_users c ms = Some (Inr users, c') \<Longrightarrow>
   length users = length ms \<and> (\<forall>m \<in> set ms. user_id_of m \<noteq> None)
   \<and> run c c' (user_exchanges ms users) 0 \<and> log c' = log c"
proof (induction ms arbitrary: c users)
  case Nil
  then show ?case by (simp add: run_refl user_exchanges_def)
next
  case (Cons m ms)
  from Cons.prems obtain u user c1 rest where
    u: "json_item m ''user_id'' = Inr u"
    and g: "call_method c ''getUser'' None [(''user_id'', u)] = Some (Inr user, c1)"
    and r: "get_users c1 ms = Some (Inr rest, c')" and us: "users = user # rest"
    by (auto simp: get_user_def split: sum.splits option.splits prod.splits)
  from u have uid: "user_id_of m = Some u" "user_id m = u"
    by (simp_all add: json_item_user_id user_id_def)
  from Cons.IH [OF r] have ih: "length rest = length ms" "\<forall>m \<in> set ms. user_id_of m \<noteq> None"
    "run c1 c' (user_exchanges ms rest) 0" "log c' = log c1"
    by simp_all
  from run_trans [OF run_call [OF g] ih(3)]
  have "run c c' (user_exchanges (m # ms) users) 0"
    by (simp add: user_exchanges_def us uid)
  moreover have "log c1 = log c" using call_method_fields [OF g] by simp
  ultimately show ?case using ih us uid by simp
qed

lemma get_users_answer:
  assumes "\<forall>m \<in> set ms. user_id_of m \<noteq> None" and "length users = length ms"
    and "answered (request_timeout c) (uuid_source c) (uuid_count c)
           (user_exchanges ms users @ later) (incoming c) rest"
  shows "\<exists>c'. get_users c ms = Some (Inr users, c')
     \<and> answered (request_timeout c') (uuid_source c') (uuid_count c') later (incoming c') rest
     \<and> log c' = log c"
  using assms
proof (induction ms arbitrary: c users)
  case Nil
  then show ?case by (simp add: user_exchanges_def)
next
  case (Cons m ms)
  from Cons.prems(2) obtain user us where us: "users = user # us" "length us = length ms"
    by (cases users) auto
  from Cons.prems(1) obtain u where u: "user_id_of m = Some u" by auto
  then have j: "json_item m ''user_id'' = Inr u" "user_id m = u"
    by (simp_all add: json_item_user_id user_id_def)
  have "answered (request_timeout c) (uuid_source c) (uuid_count c)
      ((''getUser'', [(''user_id'', u)], user) # (user_exchanges ms us @ later)) (incoming c) rest"
    using Cons.prems(3) us j by (simp add: user_exchanges_def)
  from call_method_answer [OF this] obtain c1 where
    c1: "call_method c ''getUser'' None [(''user_id'', u)] = Some (Inr user, c1)"
    "answered (request_timeout c1) (uuid_source c1) (uuid_count c1)
       (user_exchanges ms us @ later) (incoming c1) rest"
    by blast
  from Cons.prems(1) have "\<forall>m \<in> set ms. user_id_of m \<noteq> None" by simp
  from Cons.IH [OF this us(2) c1(2)] obtain c' where
    c': "get_users c1 ms = Some (Inr us, c')"
    "answered (request_timeout c') (uuid_source c') (uuid_count c') later (incoming c') rest"
    "log c' = log c1"
    by blast
  have "log c1 = log c" using call_method_fields [OF c1(1)] by simp
  with c' c1(1) j us show ?case by (simp add: get_user_def)
qed


lemma items_before_Suc: "items_before (p # trace) (Suc i) = mp_items p @ items_before trace i"
  by (simp add: items_before_def)

lemma items_before_0: "items_before trace 0 = []"
  by (simp add: items_before_def)

lemma member_exchanges_Cons:
  "member_exchanges sid ps start (p # trace) =
     (''getSupergroupMembers'',
      [(''supergroup_id'', sid), (''offset'', JInt start), (''limit'', JInt ps)], mp_answer p)
     # member_exchanges sid ps (start + int (length (mp_items p))) trace"
  unfolding member_exchanges_def
  by (simp add: map_upt_Suc items_before_Suc items_before_0 add.assoc del: upt_Suc)

lemma member_exchanges_Nil: "member_exchanges sid ps start [] = []"
  by (simp add: member_exchanges_def)

lemma member_log_Nil: "member_log members added [] = []"
  by (simp add: member_log_def)

lemma accumulated_append:
  "accumulated members added (xs @ ys)
     = accumulated (accumulated members added xs) (added \<union> member_key ` set xs) ys"
  by (simp add: accumulated_def new_members_append)

lemma member_log_Cons:
  "member_log members added (p # trace) =
     got_members (length (mp_items p)) (length (accumulated members added (mp_items p)))
     # member_log (accumulated members added (mp_items p))
         (added \<union> member_key ` set (mp_items p)) trace"
  unfolding member_log_def
  by (simp add: map_upt_Suc items_before_Suc items_before_0 accumulated_append del: upt_Suc)
     (simp add: accumulated_def)

lemma well_membered_Cons:
  "well_membered (p # trace) =
     ((\<exists>l. map_of (mp_answer p) ''members'' = Some l \<and> py_iter l = Inr (mp_items p))
      \<and> map_of (mp_answer p) ''total_count'' \<noteq> None
      \<and> (\<forall>m \<in> set (mp_items p). identified m)
      \<and> (trace \<noteq> []) = (mp_items p \<noteq> [])
      \<and> (trace \<noteq> [] \<longrightarrow> well_membered trace))"
  unfolding well_membered_def by (auto simp: All_less_Suc2)

declare members_loop.simps [simp del]

lemma members_loop_step:
  assumes "members_loop c chat ps offset members added = Some (Inr (out, tc), c')"
  shows "\<exists>sid response c1 page total_count items members' added'.
    chat_type_item chat ''supergroup_id'' = Inr sid
    \<and> call_method c ''getSupergroupMembers'' None
         [(''supergroup_id'', sid), (''offset'', JInt offset), (''limit'', JInt ps)]
       = Some (Inr response, c1)
    \<and> dict_item response ''members'' = Inr page
    \<and> dict_item response ''total_count'' = Inr total_count
    \<and> py_iter page = Inr items
    \<and> add_members items members added = Inr (members', added')
    \<and> (items \<noteq> [] \<longrightarrow>
         (\<exists>c2. sleep c1 (request_delay c1) = Inr c2
           \<and> members_loop (logger c2 (got_members (length items) (length members')))
                chat ps (offset + int (length items)) members' added'
              = Some (Inr (out, tc), c')))
    \<and> (items = [] \<longrightarrow> out = members' \<and> tc = total_count
          \<and> c' = logger c1 (got_members (length items) (length members')))"
  using assms
  by (subst (asm) members_loop.simps)
     (auto split: option.splits sum.splits prod.splits if_splits)

lemma dict_item_Some: "(dict_item d k = Inr v) = (map_of d k = Some v)"
  by (auto simp: dict_item_def split: option.splits)

lemma members_loop_run:
  "members_loop c chat ps offset members added = Some (Inr (out, tc), c') \<Longrightarrow>
   \<exists>sid trace. chat_type_item chat ''supergroup_id'' = Inr sid \<and> well_membered trace
     \<and> run c c' (member_exchanges sid ps offset trace)
          (real (length trace - 1) * request_delay c)
     \<and> out = accumulated members added (concat (map mp_items trace))
     \<and> map_of (mp_answer (last trace)) ''total_count'' = Some tc
     \<and> log c' = log c @ member_log members added trace"
proof (induction c chat ps offset members added rule: members_loop.induct)
  case (1 c chat ps offset members added)
  from members_loop_step [OF "1.prems"]
  obtain sid response c1 page total_count items members' added' where
    sid: "chat_type_item chat ''supergroup_id'' = Inr sid"
    and call: "call_method c ''getSupergroupMembers'' None
         [(''supergroup_id'', sid), (''offset'', JInt offset), (''limit'', JInt ps)]
       = Some (Inr response, c1)"
    and page: "dict_item response ''members'' = Inr page"
    and total: "dict_item response ''total_count'' = Inr total_count"
    and items: "py_iter page = Inr items"
    and add: "add_members items members added = Inr (members', added')"
    and nonempty: "items \<noteq> [] \<longrightarrow>
         (\<exists>c2. sleep c1 (request_delay c1) = Inr c2
           \<and> members_loop (logger c2 (got_members (length items) (length members')))
                chat ps (offset + int (length items)) members' added'
              = Some (Inr (out, tc), c'))"
    and empty: "items = [] \<longrightarrow> out = members' \<and> tc = total_count
          \<and> c' = logger c1 (got_members (length items) (length members'))"
    by blast
  from add have ad: "\<forall>m \<in> set items. identified m" "members' = accumulated members added items"
    "added' = added \<union> member_key ` set items"
    by (simp_all add: add_members_iff accumulated_def)
  define p where "p = \<lparr>mp_answer = response, mp_items = items\<rparr>"
  have p: "mp_answer p = response" "mp_items p = items" by (simp_all add: p_def)
  note r1 = run_call [OF call]
  have l1: "log c1 = log c" "request_delay c1 = request_delay c"
    using call_method_fields [OF call] by simp_all
  let ?e = "got_members (length items) (length members')"
  show ?case
  proof (cases "items = []")
    case True
    with empty have o: "out = members'" "tc = total_count" "c' = logger c1 ?e" by simp_all
    have "well_membered [p]"
      unfolding well_membered_Cons using p page total items ad(1) True
      by (simp add: dict_item_Some)
    moreover from run_trans [OF r1 run_logger [of c1 ?e]]
    have "run c c' (member_exchanges sid ps offset [p]) (real (length [p] - 1) * request_delay c)"
      by (simp add: member_exchanges_Cons p o member_exchanges_Nil)
    moreover have "out = accumulated members added (concat (map mp_items [p]))"
      using o ad(2) p by simp
    moreover have "map_of (mp_answer (last [p])) ''total_count'' = Some tc"
      using total o p by (simp add: dict_item_Some)
    moreover have "log c' = log c @ member_log members added [p]"
      using o l1 ad(2) p by (simp add: member_log_Cons logger_def member_log_Nil)
    ultimately show ?thesis using sid by blast
  next
    case False
    with nonempty obtain c2 where sl: "sleep c1 (request_delay c1) = Inr c2"
      and rest: "members_loop (logger c2 ?e) chat ps (offset + int (length items)) members' added'
              = Some (Inr (out, tc), c')"
      by blast
    have "\<exists>sid trace. chat_type_item chat ''supergroup_id'' = Inr sid \<and> well_membered trace
     \<and> run (logger c2 ?e) c'
          (member_exchanges sid ps (offset + int (length items)) trace)
          (real (length trace - 1) * request_delay (logger c2 ?e))
     \<and> out = accumulated members' added' (concat (map mp_items trace))
     \<and> map_of (mp_answer (last trace)) ''total_count'' = Some tc
     \<and> log c' = log (logger c2 ?e) @ member_log members' added' trace"
    proof (rule "1.IH")
      show "chat_type_item chat ''supergroup_id'' = Inr sid" by (rule sid)
      show "call_method c ''getSupergroupMembers'' None
         [(''supergroup_id'', sid), (''offset'', JInt offset), (''limit'', JInt ps)]
        = Some (Inr response, c1)" by (rule call)
      show "(Inr response, c1) = (Inr response, c1)" ..
      show "Inr response = Inr response" ..
      show "dict_item response ''members'' = Inr page" by (rule page)
      show "dict_item response ''total_count'' = Inr total_count" by (rule total)
      show "py_iter page = Inr items" by (rule items)
      show "add_members items members added = Inr (members', added')" by (rule add)
      show "(members', added') = (members', added')" ..
      show "items \<noteq> []" by (rule False)
      show "sleep c1 (request_delay c1) = Inr c2" by (rule sl)
      show "members_loop (logger c2 ?e) chat ps (offset + int (length items)) members' added'
              = Some (Inr (out, tc), c')" by (rule rest)
    qed
    then obtain sid' trace where
      t: "chat_type_item chat ''supergroup_id'' = Inr sid'" "well_membered trace"
      "run (logger c2 ?e) c' (member_exchanges sid' ps (offset + int (length items)) trace)
          (real (length trace - 1) * request_delay (logger c2 ?e))"
      "out = accumulated members' added' (concat (map mp_items trace))"
      "map_of (mp_answer (last trace)) ''total_count'' = Some tc"
      "log c' = log (logger c2 ?e) @ member_log members' added' trace"
      by blast
    from t(1) sid have same: "sid' = sid" by simp
    have ne: "trace \<noteq> []" using t(2) by (simp add: well_membered_def)
    from run_sleep [OF sl] have r2: "run c1 c2 [] (request_delay c)" by (simp add: l1)
    have l2: "log c2 = log c" "request_delay c2 = request_delay c"
      using sl l1 by (auto simp: sleep_def split: if_splits)
    have rd: "request_delay (logger c2 ?e) = request_delay c"
      using l2 by (simp add: logger_def)
    have "well_membered (p # trace)"
      unfolding well_membered_Cons using p page total items ad(1) False ne t(2)
      by (simp add: dict_item_Some)
    moreover from run_trans [OF run_trans [OF run_trans [OF r1 r2] run_logger [of c2 ?e]] t(3)]
    have "run c c' (member_exchanges sid ps offset (p # trace))
        (request_delay c + real (length trace - 1) * request_delay c)"
      by (simp add: member_exchanges_Cons p same rd)
    then have "run c c' (member_exchanges sid ps offset (p # trace))
        (real (length (p # trace) - 1) * request_delay c)"
      using ne by (cases trace) (simp_all add: algebra_simps)
    moreover have "out = accumulated members added (concat (map mp_items (p # trace)))"
      using t(4) ad(2,3) p by (simp add: accumulated_append)
    moreover have "map_of (mp_answer (last (p # trace))) ''total_count'' = Some tc"
      using t(5) ne by simp
    moreover have "log c' = log c @ member_log members added (p # trace)"
      using t(6) l2 ad(2,3) p by (simp add: member_log_Cons logger_def)
    ultimately show ?thesis using sid by blast
  qed
qed

lemma members_loop_answer:
  assumes "0 \<le> request_delay c" and "chat_type_item chat ''supergroup_id'' = Inr sid"
    and "well_membered trace"
    and "answered (request_timeout c) (uuid_source c) (uuid_count c)
           (member_exchanges sid ps offset trace @ later) (incoming c) rest"
  shows "\<exists>c' tc. members_loop c chat ps offset members added
        = Some (Inr (accumulated members added (concat (map mp_items trace)), tc), c')
     \<and> map_of (mp_answer (last trace)) ''total_count'' = Some tc
     \<and> answered (request_timeout c') (uuid_source c') (uuid_count c') later (incoming c') rest
     \<and> log c' = log c @ member_log members added trace"
  using assms
proof (induction trace arbitrary: c offset members added)
  case Nil
  then show ?case by (simp add: well_membered_def)
next
  case (Cons p trace)
  let ?members = "accumulated members added (mp_items p)"
  let ?added = "added \<union> member_key ` set (mp_items p)"
  let ?e = "got_members (length (mp_items p)) (length ?members)"
  from Cons.prems(3) obtain l tcp where
    w: "map_of (mp_answer p) ''members'' = Some l" "py_iter l = Inr (mp_items p)"
    "map_of (mp_answer p) ''total_count'' = Some tcp"
    "\<forall>m \<in> set (mp_items p). identified m" "(trace \<noteq> []) = (mp_items p \<noteq> [])"
    and nx: "trace \<noteq> [] \<longrightarrow> well_membered trace"
    unfolding well_membered_Cons by blast
  have "answered (request_timeout c) (uuid_source c) (uuid_count c)
      ((''getSupergroupMembers'',
        [(''supergroup_id'', sid), (''offset'', JInt offset), (''limit'', JInt ps)], mp_answer p)
       # (member_exchanges sid ps (offset + int (length (mp_items p))) trace @ later))
      (incoming c) rest"
    using Cons.prems(4) by (simp add: member_exchanges_Cons)
  from call_method_answer [OF this] obtain c1 where
    c1: "call_method c ''getSupergroupMembers'' None
       [(''supergroup_id'', sid), (''offset'', JInt offset), (''limit'', JInt ps)]
      = Some (Inr (mp_answer p), c1)"
    "answered (request_timeout c1) (uuid_source c1) (uuid_count c1)
       (member_exchanges sid ps (offset + int (length (mp_items p))) trace @ later)
       (incoming c1) rest"
    by blast
  have f1: "log c1 = log c" "request_delay c1 = request_delay c"
    using call_method_fields [OF c1(1)] by simp_all
  have di: "dict_item (mp_answer p) ''members'' = Inr l"
    "dict_item (mp_answer p) ''total_count'' = Inr tcp"
    using w(1,3) by (simp_all add: dict_item_Some)
  have add: "add_members (mp_items p) members added = Inr (?members, ?added)"
    using w(4) by (simp add: add_members_iff accumulated_def)
  show ?case
  proof (cases "trace = []")
    case True
    with w(5) have e: "mp_items p = []" by simp
    have "members_loop c chat ps offset members added
        = Some (Inr (?members, tcp), logger c1 ?e)"
      using Cons.prems(2) c1(1) di w(2) add e by (subst members_loop.simps) simp
    moreover have "answered (request_timeout (logger c1 ?e)) (uuid_source (logger c1 ?e))
        (uuid_count (logger c1 ?e)) later (incoming (logger c1 ?e)) rest"
      using c1(2) True by (simp add: logger_def member_exchanges_Nil)
    moreover have "log (logger c1 ?e) = log c @ member_log members added (p # trace)"
      using f1 True by (simp add: logger_def member_log_Cons member_log_Nil)
    ultimately show ?thesis using True w(3) by (simp add: e)
  next
    case False
    with w(5) have ne: "mp_items p \<noteq> []" by simp
    from False nx have wt: "well_membered trace" by simp
    define c2 where "c2 = c1\<lparr>clock := clock c1 + request_delay c1\<rparr>"
    have sl: "sleep c1 (request_delay c1) = Inr c2"
      using Cons.prems(1) f1 by (simp add: sleep_def c2_def)
    define c3 where "c3 = logger c2 ?e"
    have "\<exists>c' tc. members_loop c3 chat ps (offset + int (length (mp_items p))) ?members ?added
        = Some (Inr (accumulated ?members ?added (concat (map mp_items trace)), tc), c')
       \<and> map_of (mp_answer (last trace)) ''total_count'' = Some tc
       \<and> answered (request_timeout c') (uuid_source c') (uuid_count c') later (incoming c') rest
       \<and> log c' = log c3 @ member_log ?members ?added trace"
      using Cons.prems(1,2) f1 wt c1(2)
      by (intro Cons.IH) (simp_all add: c3_def c2_def logger_def)
    then obtain c' tc where
      c': "members_loop c3 chat ps (offset + int (length (mp_items p))) ?members ?added
        = Some (Inr (accumulated ?members ?added (concat (map mp_items trace)), tc), c')"
      "map_of (mp_answer (last trace)) ''total_count'' = Some tc"
      "answered (request_timeout c') (uuid_source c') (uuid_count c') later (incoming c') rest"
      "log c' = log c3 @ member_log ?members ?added trace"
      by blast
    have "members_loop c chat ps offset members added
        = Some (Inr (accumulated ?members ?added (concat (map mp_items trace)), tc), c')"
      using Cons.prems(2) c1(1) di w(2) add ne sl c'(1) [unfolded c3_def]
      by (subst members_loop.simps) simp
    moreover have "log c3 = log c @ [?e]" using f1 by (simp add: c3_def c2_def logger_def)
    ultimately show ?thesis
      using c'(2-4) False by (simp add: accumulated_append member_log_Cons)
  qed
qed

lemma run_log:
  "run c c' xs d \<Longrightarrow> run c (logger c' e) xs d"
  using run_trans [of c c' xs d "logger c' e" "[]" 0] run_logger [of c' e] by simp

lemma get_super_group_members_run:
  assumes "get_super_group_members c chat ps = Some (Inr members, c')"
  shows "\<exists>sid trace tc. chat_type_item chat ''supergroup_id'' = Inr sid \<and> 1 < ps
     \<and> well_membered trace
     \<and> members = new_members {} (concat (map mp_items trace))
     \<and> run c c' (member_exchanges sid ps 0 trace) (real (length trace - 1) * request_delay c)
     \<and> map_of (mp_answer (last trace)) ''total_count'' = Some tc
     \<and> log c' = log c @ member_log [] {} trace @ mismatch_log tc (length members)"
proof -
  from assms have ps: "1 < ps"
    by (auto simp: get_super_group_members_def split: if_splits)
  with assms obtain tc c1 where
    loop: "members_loop c chat ps 0 [] {} = Some (Inr (members, tc), c1)"
    and c': "c' = (if py_ne_int tc (int (length members))
                  then logger c1 (count_mismatch tc (length members)) else c1)"
    by (auto simp: get_super_group_members_def split: option.splits sum.splits prod.splits)
  from members_loop_run [OF loop] obtain sid trace where
    t: "chat_type_item chat ''supergroup_id'' = Inr sid" "well_membered trace"
    "run c c1 (member_exchanges sid ps 0 trace) (real (length trace - 1) * request_delay c)"
    "members = accumulated [] {} (concat (map mp_items trace))"
    "map_of (mp_answer (last trace)) ''total_count'' = Some tc"
    "log c1 = log c @ member_log [] {} trace"
    by blast
  have "run c c' (member_exchanges sid ps 0 trace) (real (length trace - 1) * request_delay c)"
    using t(3) c' by (simp add: run_log)
  moreover have "log c' = log c @ member_log [] {} trace @ mismatch_log tc (length members)"
    using t(6) c' by (simp add: mismatch_log_def logger_def)
  moreover have "members = new_members {} (concat (map mp_items trace))"
    using t(4) by (simp add: accumulated_def)
  ultimately show ?thesis using t(1,2,5) ps by blast
qed

lemma get_super_group_members_answer:
  assumes "1 < ps" and "0 \<le> request_delay c"
    and "chat_type_item chat ''supergroup_id'' = Inr sid" and "well_membered trace"
    and "map_of (mp_answer (last trace)) ''total_count'' = Some tc"
    and "answered (request_timeout c) (uuid_source c) (uuid_count c)
           (member_exchanges sid ps 0 trace @ later) (incoming c) rest"
  shows "\<exists>c'. get_super_group_members c chat ps
        = Some (Inr (new_members {} (concat (map mp_items trace))), c')
     \<and> answered (request_timeout c') (uuid_source c') (uuid_count c') later (incoming c') rest
     \<and> log c' = log c @ member_log [] {} trace
          @ mismatch_log tc (length (new_members {} (concat (map mp_items trace))))"
proof -
  let ?members = "new_members {} (concat (map mp_items trace))"
  from members_loop_answer [OF assms(2,3,4,6), of "[]" "{}"] assms(5)
  obtain c1 where
    c1: "members_loop c chat ps 0 [] {} = Some (Inr (?members, tc), c1)"
    "answered (request_timeout c1) (uuid_source c1) (uuid_count c1) later (incoming c1) rest"
    "log c1 = log c @ member_log [] {} trace"
    by (auto simp: accumulated_def)
  define c' where "c' = (if py_ne_int tc (int (length ?members))
                  then logger c1 (count_mismatch tc (length ?members)) else c1)"
  have "get_super_group_members c chat ps = Some (Inr ?members, c')"
    using assms(1) c1(1) by (simp add: get_super_group_members_def c'_def)
  moreover have "answered (request_timeout c') (uuid_source c') (uuid_count c') later
      (incoming c') rest"
    using c1(2) by (simp add: c'_def logger_def)
  moreover have "log c' = log c @ member_log [] {} trace @ mismatch_log tc (length ?members)"
    using c1(3) by (simp add: c'_def mismatch_log_def logger_def)
  ultimately show ?thesis by blast
qed

lemma identified_user_id: "identified m \<Longrightarrow> user_id_of m \<noteq> None"
  by (auto simp: identified_def split: option.splits)

lemma well_membered_identified:
  assumes "well_membered trace"
  shows "\<forall>m \<in> set (concat (map mp_items trace)). identified m"
proof
  fix m assume "m \<in> set (concat (map mp_items trace))"
  then obtain p where p: "p \<in> set trace" "m \<in> set (mp_items p)" by auto
  from p(1) obtain i where i: "i < length trace" "trace ! i = p"
    by (auto simp: in_set_conv_nth)
  with assms have "\<forall>m \<in> set (mp_items p). identified m"
    by (auto simp: well_membered_def)
  with p(2) show "identified m" by blast
qed

text \<open>
  C7. When \<open>get_group_members\<close> returns a list of users, what passed between the client
  and the channel during the call is exactly one of two conversations, both starting with
  the lookup of the chat and ending with one \<open>getUser\<close> request for the \<open>user_id\<close> of
  each member, in the order of the members, whose answers are the users returned.

  For a basic group there is one request in between, \<open>getBasicGroupFullInfo\<close>, and the
  members are the \<open>members\<close> of its answer; nothing is logged.

  For a supergroup the requests in between are those of the pages \<open>trace\<close>: each page is
  asked with the limit \<open>page_size\<close> at the offset that is the number of members received
  in the pages before it, a page is followed by another one exactly when it is not empty
  (so the last page, and only the last, is empty), and the members are those of the pages,
  each key of a \<open>user_id\<close> once, where it first occurs. The log receives one record for
  each page and, when the \<open>total_count\<close> of the last answer differs from the number of
  members, one warning; the clock has moved by the time of the polls used and by one
  \<open>request_delay\<close> for each page but the last.

  Conversely, whenever the channel answers the requests of such a conversation, the call
  returns the users: for a basic group after the one request for the members, for a
  supergroup after the pages up to the empty one, whatever the totals reported are; a
  total that differs from the number of members only adds the warning to the log.
\<close>

theorem get_group_members_listing:
  "(get_group_members c group_id page_size = Some (Inr users, c') \<longrightarrow>
      (\<exists>chat members.
         length users = length members \<and> (\<forall>m \<in> set members. user_id_of m \<noteq> None)
       \<and> ((\<exists>bid info l.
               chat_type_item chat ''@type'' = Inr (JStr ''chatTypeBasicGroup'')
             \<and> chat_type_item chat ''basic_group_id'' = Inr bid
             \<and> map_of info ''members'' = Some l \<and> py_iter l = Inr members
             \<and> conversation c c'
                 ((''getChat'', [(''chat_id'', JInt group_id)], chat)
                  # (''getBasicGroupFullInfo'', [(''basic_group_id'', bid)], info)
                  # user_exchanges members users)
             \<and> log c' = log c)
          \<or> (\<exists>sid trace tc.
               chat_type_item chat ''@type'' = Inr (JStr ''chatTypeSupergroup'')
             \<and> chat_type_item chat ''supergroup_id'' = Inr sid
             \<and> 1 < page_size
             \<and> well_membered trace
             \<and> members = new_members {} (concat (map mp_items trace))
             \<and> distinct (map member_key members)
             \<and> subseq members (concat (map mp_items trace))
             \<and> member_key ` set members = member_key ` set (concat (map mp_items trace))
             \<and> conversation c c'
                 ((''getChat'', [(''chat_id'', JInt group_id)], chat)
                  # member_exchanges sid page_size 0 trace @ user_exchanges members users)
             \<and> map_of (mp_answer (last trace)) ''total_count'' = Some tc
             \<and> log c' = log c @ member_log [] {} trace @ mismatch_log tc (length members)
             \<and> advanced c c' (real (length trace - 1) * request_delay c)))))
 \<and> (chat_type_item chat ''@type'' = Inr (JStr ''chatTypeBasicGroup'')
      \<and> chat_type_item chat ''basic_group_id'' = Inr bid
      \<and> map_of info ''members'' = Some l \<and> py_iter l = Inr members
      \<and> (\<forall>m \<in> set members. user_id_of m \<noteq> None) \<and> length users = length members
      \<and> answered (request_timeout c) (uuid_source c) (uuid_count c)
           ((''getChat'', [(''chat_id'', JInt group_id)], chat)
            # (''getBasicGroupFullInfo'', [(''basic_group_id'', bid)], info)
            # user_exchanges members users)
           (incoming c) rest \<longrightarrow>
      (\<exists>c'. get_group_members c group_id page_size = Some (Inr users, c')
            \<and> incoming c' = rest \<and> log c' = log c))
 \<and> (chat_type_item chat ''@type'' = Inr (JStr ''chatTypeSupergroup'')
      \<and> chat_type_item chat ''supergroup_id'' = Inr sid
      \<and> 1 < page_size \<and> 0 \<le> request_delay c
      \<and> well_membered trace
      \<and> members = new_members {} (concat (map mp_items trace))
      \<and> length users = length members
      \<and> map_of (mp_answer (last trace)) ''total_count'' = Some tc
      \<and> answered (request_timeout c) (uuid_source c) (uuid_count c)
           ((''getChat'', [(''chat_id'', JInt group_id)], chat)
            # member_exchanges sid page_size 0 trace @ user_exchanges members users)
           (incoming c) rest \<longrightarrow>
      (\<exists>c'. get_group_members c group_id page_size = Some (Inr users, c')
            \<and> incoming c' = rest
            \<and> log c' = log c @ member_log [] {} trace @ mismatch_log tc (length members)))"
proof (intro conjI impI)
  assume r: "get_group_members c group_id page_size = Some (Inr users, c')"
  then obtain chat c1 members c2 where
    g: "call_method c ''getChat'' None [(''chat_id'', JInt group_id)] = Some (Inr chat, c1)"
    and m: "group_members c1 chat page_size = Some (Inr members, c2)"
    and u: "get_users c2 members = Some (Inr users, c')"
    by (auto simp: get_group_members_def split: option.splits sum.splits prod.splits)
  note r1 = run_call [OF g]
  have l1: "log c1 = log c" "request_delay c1 = request_delay c"
    using call_method_fields [OF g] by simp_all
  from get_users_run [OF u] have us: "length users = length members"
    "run c2 c' (user_exchanges members users) 0" "log c' = log c2"
    and uid: "\<forall>m \<in> set members. user_id_of m \<noteq> None"
    by simp_all
  from m obtain ty where ty: "chat_type_item chat ''@type'' = Inr ty"
    by (auto simp: group_members_def split: sum.splits)
  have kinds: "ty = JStr ''chatTypeBasicGroup'' \<or> ty = JStr ''chatTypeSupergroup''"
    using m ty by (auto simp: group_members_def split: if_splits)
  show "\<exists>chat members.
         length users = length members \<and> (\<forall>m \<in> set members. user_id_of m \<noteq> None)
       \<and> ((\<exists>bid info l.
               chat_type_item chat ''@type'' = Inr (JStr ''chatTypeBasicGroup'')
             \<and> chat_type_item chat ''basic_group_id'' = Inr bid
             \<and> map_of info ''members'' = Some l \<and> py_iter l = Inr members
             \<and> conversation c c'
                 ((''getChat'', [(''chat_id'', JInt group_id)], chat)
                  # (''getBasicGroupFullInfo'', [(''basic_group_id'', bid)], info)
                  # user_exchanges members users)
             \<and> log c' = log c)
          \<or> (\<exists>sid trace tc.
               chat_type_item chat ''@type'' = Inr (JStr ''chatTypeSupergroup'')
             \<and> chat_type_item chat ''supergroup_id'' = Inr sid
             \<and> 1 < page_size
             \<and> well_membered trace
             \<and> members = new_members {} (concat (map mp_items trace))
             \<and> distinct (map member_key members)
             \<and> subseq members (concat (map mp_items trace))
             \<and> member_key ` set members = member_key ` set (concat (map mp_items trace))
             \<and> conversation c c'
                 ((''getChat'', [(''chat_id'', JInt group_id)], chat)
                  # member_exchanges sid page_size 0 trace @ user_exchanges members users)
             \<and> map_of (mp_answer (last trace)) ''total_count'' = Some tc
             \<and> log c' = log c @ member_log [] {} trace @ mismatch_log tc (length members)
             \<and> advanced c c' (real (length trace - 1) * request_delay c)))"
  proof (cases "ty = JStr ''chatTypeBasicGroup''")
    case True
    with m ty obtain bid info l where
      b: "chat_type_item chat ''basic_group_id'' = Inr bid"
      "call_method c1 ''getBasicGroupFullInfo'' None [(''basic_group_id'', bid)]
         = Some (Inr info, c2)"
      "dict_item info ''members'' = Inr l" "py_iter l = Inr members"
      by (auto simp: group_members_def split: sum.splits option.splits prod.splits)
    from run_trans [OF run_trans [OF r1 run_call [OF b(2)]] us(2)]
    have "conversation c c'
        ((''getChat'', [(''chat_id'', JInt group_id)], chat)
         # (''getBasicGroupFullInfo'', [(''basic_group_id'', bid)], info)
         # user_exchanges members users)"
      by (simp add: run_def)
    moreover have "log c' = log c"
      using us(3) l1 call_method_fields [OF b(2)] by simp
    ultimately show ?thesis
      using True ty b us(1) uid
      by (intro exI [of _ chat] exI [of _ members]) (auto simp: dict_item_Some)
  next
    case False
    with kinds have k: "ty = JStr ''chatTypeSupergroup''" by simp
    with m ty have "get_super_group_members c1 chat page_size = Some (Inr members, c2)"
      by (simp add: group_members_def)
    from get_super_group_members_run [OF this] obtain sid trace tc where
      t: "chat_type_item chat ''supergroup_id'' = Inr sid" "1 < page_size"
      "well_membered trace" "members = new_members {} (concat (map mp_items trace))"
      "run c1 c2 (member_exchanges sid page_size 0 trace)
         (real (length trace - 1) * request_delay c1)"
      "map_of (mp_answer (last trace)) ''total_count'' = Some tc"
      "log c2 = log c1 @ member_log [] {} trace @ mismatch_log tc (length members)"
      by blast
    from run_trans [OF run_trans [OF r1 t(5)] us(2)]
    have rr: "run c c'
        ((''getChat'', [(''chat_id'', JInt group_id)], chat)
         # member_exchanges sid page_size 0 trace @ user_exchanges members users)
        (real (length trace - 1) * request_delay c)"
      by (simp add: l1)
    have d: "distinct (map member_key members)"
      "subseq members (concat (map mp_items trace))"
      "member_key ` set members = member_key ` set (concat (map mp_items trace))"
      unfolding t(4) by (simp_all add: new_members_distinct new_members_subseq new_members_keys)
    have "log c' = log c @ member_log [] {} trace @ mismatch_log tc (length members)"
      using us(3) t(7) l1 by simp
    with rr d t k ty us(1) uid show ?thesis
      by (intro exI [of _ chat] exI [of _ members] conjI disjI2 exI [of _ sid] exI [of _ trace]
          exI [of _ tc]) (simp_all add: run_def)
  qed
next
  assume a: "chat_type_item chat ''@type'' = Inr (JStr ''chatTypeBasicGroup'')
      \<and> chat_type_item chat ''basic_group_id'' = Inr bid
      \<and> map_of info ''members'' = Some l \<and> py_iter l = Inr members
      \<and> (\<forall>m \<in> set members. user_id_of m \<noteq> None) \<and> length users = length members
      \<and> answered (request_timeout c) (uuid_source c) (uuid_count c)
           ((''getChat'', [(''chat_id'', JInt group_id)], chat)
            # (''getBasicGroupFullInfo'', [(''basic_group_id'', bid)], info)
            # user_exchanges members users)
           (incoming c) rest"
  then have an: "answered (request_timeout c) (uuid_source c) (uuid_count c)
           ((''getChat'', [(''chat_id'', JInt group_id)], chat)
            # (''getBasicGroupFullInfo'', [(''basic_group_id'', bid)], info)
            # user_exchanges members users)
           (incoming c) rest" by simp
  from call_method_answer [OF an] obtain c1 where
    c1: "call_method c ''getChat'' None [(''chat_id'', JInt group_id)] = Some (Inr chat, c1)"
    "answered (request_timeout c1) (uuid_source c1) (uuid_count c1)
       ((''getBasicGroupFullInfo'', [(''basic_group_id'', bid)], info)
        # user_exchanges members users) (incoming c1) rest"
    by blast
  from call_method_answer [OF c1(2)] obtain c2 where
    c2: "call_method c1 ''getBasicGroupFullInfo'' None [(''basic_group_id'', bid)]
       = Some (Inr info, c2)"
    "answered (request_timeout c2) (uuid_source c2) (uuid_count c2)
       (user_exchanges members users @ []) (incoming c2) rest"
    by auto
  from a have "\<forall>m \<in> set members. user_id_of m \<noteq> None" "length users = length members"
    by simp_all
  from get_users_answer [OF this c2(2)] obtain c' where
    c': "get_users c2 members = Some (Inr users, c')" "incoming c' = rest" "log c' = log c2"
    by auto
  from a have di: "dict_item info ''members'' = Inr l" by (simp add: dict_item_Some)
  have gm: "group_members c1 chat page_size = Some (Inr members, c2)"
    using a c2(1) di by (simp add: group_members_def)
  have "log c2 = log c"
    using call_method_fields [OF c1(1)] call_method_fields [OF c2(1)] by simp
  with c1(1) gm c' show "\<exists>c'. get_group_members c group_id page_size = Some (Inr users, c')
            \<and> incoming c' = rest \<and> log c' = log c"
    by (simp add: get_group_members_def)
next
  assume a: "chat_type_item chat ''@type'' = Inr (JStr ''chatTypeSupergroup'')
      \<and> chat_type_item chat ''supergroup_id'' = Inr sid
      \<and> 1 < page_size \<and> 0 \<le> request_delay c
      \<and> well_membered trace
      \<and> members = new_members {} (concat (map mp_items trace))
      \<and> length users = length members
      \<and> map_of (mp_answer (last trace)) ''total_count'' = Some tc
      \<and> answered (request_timeout c) (uuid_source c) (uuid_count c)
           ((''getChat'', [(''chat_id'', JInt group_id)], chat)
            # member_exchanges sid page_size 0 trace @ user_exchanges members users)
           (incoming c) rest"
  then have an: "answered (request_timeout c) (uuid_source c) (uuid_count c)
           ((''getChat'', [(''chat_id'', JInt group_id)], chat)
            # (member_exchanges sid page_size 0 trace @ user_exchanges members users))
           (incoming c) rest" by (elim conjE)
  from call_method_answer [OF an] obtain c1 where
    c1: "call_method c ''getChat'' None [(''chat_id'', JInt group_id)] = Some (Inr chat, c1)"
    "answered (request_timeout c1) (uuid_source c1) (uuid_count c1)
       (member_exchanges sid page_size 0 trace @ user_exchanges members users)
       (incoming c1) rest"
    by blast
  have f1: "log c1 = log c" "request_delay c1 = request_delay c"
    using call_method_fields [OF c1(1)] by simp_all
  from a f1 have h: "1 < page_size" "0 \<le> request_delay c1"
    "chat_type_item chat ''supergroup_id'' = Inr sid" "well_membered trace"
    "map_of (mp_answer (last trace)) ''total_count'' = Some tc"
    by simp_all
  from a have mem: "members = new_members {} (concat (map mp_items trace))" by simp
  from get_super_group_members_answer [OF h c1(2)] obtain c2 where
    c2: "get_super_group_members c1 chat page_size = Some (Inr members, c2)"
    "answered (request_timeout c2) (uuid_source c2) (uuid_count c2)
       (user_exchanges members users @ []) (incoming c2) rest"
    "log c2 = log c1 @ member_log [] {} trace @ mismatch_log tc (length members)"
    unfolding mem by auto
  have "\<forall>m \<in> set members. user_id_of m \<noteq> None"
    unfolding mem
    using new_members_identified [OF well_membered_identified [OF h(4)], of "{}"]
    by (auto dest: identified_user_id)
  moreover from a have "length users = length members" by simp
  ultimately obtain c' where
    c': "get_users c2 members = Some (Inr users, c')" "incoming c' = rest" "log c' = log c2"
    using get_users_answer [OF _ _ c2(2)] by auto
  have gm: "group_members c1 chat page_size = Some (Inr members, c2)"
    using a c2(1) by (simp add: group_members_def)
  with c1(1) c' c2(3) f1 show "\<exists>c'. get_group_members c group_id page_size = Some (Inr users, c')
            \<and> incoming c' = rest
            \<and> log c' = log c @ member_log [] {} trace @ mismatch_log tc (length members)"
    by (simp add: get_group_members_def)
qed

lemma supergroup_members:
  "new_members {} (concat (map mp_items supergroup_trace))
     = [member_of 1 ''creator'', member_of 2 ''member'']"
  by (simp add: supergroup_trace_def member_key_def user_id_def user_id_of_def member_of_def
      the_key_def)

lemma supergroup_well_membered: "well_membered supergroup_trace"
  by (simp add: supergroup_trace_def well_membered_Cons members_answer_def py_iter_def
      identified_def user_id_of_def member_of_def hashable_def)

lemma supergroup_answered:
  "answered (Some 60) uuid_of 0
     ((''getChat'', [(''chat_id'', JInt 5)], group_chat_answer ''chatTypeSupergroup'')
      # member_exchanges (JInt 9) 200 0 supergroup_trace
      @ user_exchanges [member_of 1 ''creator'', member_of 2 ''member'']
          [user_answer ''aaaa'' 1, user_answer ''aaaaa'' 2])
     supergroup_polls []"
  by (simp add: supergroup_trace_def supergroup_polls_def member_exchanges_Cons
      member_exchanges_Nil user_exchanges_def answered.simps no_match_def uuid_of_def
      is_result_def group_chat_answer_def members_answer_def user_answer_def
      received_request_id_def dict_get_def json_get_def)

lemma basic_answered:
  "answered (Some 60) uuid_of 0
     ((''getChat'', [(''chat_id'', JInt 5)], basic_chat_answer)
      # (''getBasicGroupFullInfo'', [(''basic_group_id'', JInt 4)], basic_info_answer)
      # user_exchanges [member_of 1 ''creator'', member_of 2 ''member'']
          [user_answer ''aaa'' 1, user_answer ''aaaa'' 2])
     basic_polls []"
  by (simp add: basic_polls_def user_exchanges_def answered.simps no_match_def uuid_of_def
      is_result_def basic_chat_answer_def basic_info_answer_def user_answer_def
      received_request_id_def dict_get_def json_get_def)

theorem get_group_members_listing_witness:
  "(\<exists>c'. get_group_members (test_client (Some 60) supergroup_polls) 5 200
            = Some (Inr [user_answer ''aaaa'' 1, user_answer ''aaaaa'' 2], c')
       \<and> incoming c' = []
       \<and> log c' = [got_members 3 2, got_members 0 2, count_mismatch (JInt 5) 2]
       \<and> (\<exists>chat members.
         length [user_answer ''aaaa'' 1, user_answer ''aaaaa'' 2] = length members
       \<and> (\<forall>m \<in> set members. user_id_of m \<noteq> None)
       \<and> ((\<exists>bid info l.
               chat_type_item chat ''@type'' = Inr (JStr ''chatTypeBasicGroup'')
             \<and> chat_type_item chat ''basic_group_id'' = Inr bid
             \<and> map_of info ''members'' = Some l \<and> py_iter l = Inr members
             \<and> conversation (test_client (Some 60) supergroup_polls) c'
                 ((''getChat'', [(''chat_id'', JInt 5)], chat)
                  # (''getBasicGroupFullInfo'', [(''basic_group_id'', bid)], info)
                  # user_exchanges members [user_answer ''aaaa'' 1, user_answer ''aaaaa'' 2])
             \<and> log c' = log (test_client (Some 60) supergroup_polls))
          \<or> (\<exists>sid trace tc.
               chat_type_item chat ''@type'' = Inr (JStr ''chatTypeSupergroup'')
             \<and> chat_type_item chat ''supergroup_id'' = Inr sid
             \<and> 1 < (200::int)
             \<and> well_membered trace
             \<and> members = new_members {} (concat (map mp_items trace))
             \<and> distinct (map member_key members)
             \<and> subseq members (concat (map mp_items trace))
             \<and> member_key ` set members = member_key ` set (concat (map mp_items trace))
             \<and> conversation (test_client (Some 60) supergroup_polls) c'
                 ((''getChat'', [(''chat_id'', JInt 5)], chat)
                  # member_exchanges sid 200 0 trace @ user_exchanges members [user_answer ''aaaa'' 1, user_answer ''aaaaa'' 2])
             \<and> map_of (mp_answer (last trace)) ''total_count'' = Some tc
             \<and> log c' = log (test_client (Some 60) supergroup_polls) @ member_log [] {} trace @ mismatch_log tc (length members)
             \<and> advanced (test_client (Some 60) supergroup_polls) c' (real (length trace - 1) * request_delay (test_client (Some 60) supergroup_polls))))))
   \<and> (\<exists>c'. get_group_members (test_client (Some 60) basic_polls) 5 200
            = Some (Inr [user_answer ''aaa'' 1, user_answer ''aaaa'' 2], c')
       \<and> incoming c' = [] \<and> log c' = [])"
proof -
  let ?c = "test_client (Some 60) supergroup_polls"
  let ?b = "test_client (Some 60) basic_polls"
  let ?members = "[member_of 1 ''creator'', member_of 2 ''member'']"
  let ?users = "[user_answer ''aaaa'' 1, user_answer ''aaaaa'' 2]"
  let ?users' = "[user_answer ''aaa'' 1, user_answer ''aaaa'' 2]"
  have h1: "chat_type_item (group_chat_answer ''chatTypeSupergroup'') ''@type''
        = Inr (JStr ''chatTypeSupergroup'')"
    "chat_type_item (group_chat_answer ''chatTypeSupergroup'') ''supergroup_id'' = Inr (JInt 9)"
    by (simp_all add: chat_type_item_def group_chat_answer_def dict_item_def json_item_def)
  have h2: "1 < (200::int)" "0 \<le> request_delay ?c" "length ?users = length ?members"
    by (simp_all add: test_client_def)
  have h3: "map_of (mp_answer (last supergroup_trace)) ''total_count'' = Some (JInt 5)"
    by (simp add: supergroup_trace_def members_answer_def)
  have h4: "answered (request_timeout ?c) (uuid_source ?c) (uuid_count ?c)
           ((''getChat'', [(''chat_id'', JInt 5)], group_chat_answer ''chatTypeSupergroup'')
            # member_exchanges (JInt 9) 200 0 supergroup_trace @ user_exchanges ?members ?users)
           (incoming ?c) []"
    using supergroup_answered by (simp add: test_client_def)
  have h: "chat_type_item (group_chat_answer ''chatTypeSupergroup'') ''@type''
        = Inr (JStr ''chatTypeSupergroup'')
      \<and> chat_type_item (group_chat_answer ''chatTypeSupergroup'') ''supergroup_id'' = Inr (JInt 9)
      \<and> 1 < (200::int) \<and> 0 \<le> request_delay ?c
      \<and> well_membered supergroup_trace
      \<and> ?members = new_members {} (concat (map mp_items supergroup_trace))
      \<and> length ?users = length ?members
      \<and> map_of (mp_answer (last supergroup_trace)) ''total_count'' = Some (JInt 5)
      \<and> answered (request_timeout ?c) (uuid_source ?c) (uuid_count ?c)
           ((''getChat'', [(''chat_id'', JInt 5)], group_chat_answer ''chatTypeSupergroup'')
            # member_exchanges (JInt 9) 200 0 supergroup_trace @ user_exchanges ?members ?users)
           (incoming ?c) []"
    by (intro conjI h1 h2 h3 h4 supergroup_well_membered supergroup_members [symmetric])
  have lg: "log ?c @ member_log [] {} supergroup_trace @ mismatch_log (JInt 5) (length ?members)
      = [got_members 3 2, got_members 0 2, count_mismatch (JInt 5) 2]"
    by (simp add: test_client_def supergroup_trace_def member_log_Cons member_log_Nil
        accumulated_def mismatch_log_def py_ne_int_def member_key_def user_id_def user_id_of_def
        member_of_def the_key_def numeral_2_eq_2 numeral_3_eq_3)
  note fw = get_group_members_listing [where c = ?c and group_id = 5 and page_size = 200
      and chat = "group_chat_answer ''chatTypeSupergroup''" and sid = "JInt 9"
      and trace = supergroup_trace and members = ?members and users = ?users
      and tc = "JInt 5" and rest = "[]", THEN conjunct2, THEN conjunct2, THEN mp, OF h,
      unfolded lg]
  from fw obtain c' where r: "get_group_members ?c 5 200 = Some (Inr ?users, c')"
    "incoming c' = []"
    "log c' = [got_members 3 2, got_members 0 2, count_mismatch (JInt 5) 2]"
    by (elim exE conjE) (rule that, assumption+)
  note conv = get_group_members_listing [where c = ?c and group_id = 5 and page_size = 200
      and users = ?users and c' = c', THEN conjunct1, THEN mp, OF r(1)]
  have b1: "chat_type_item basic_chat_answer ''@type'' = Inr (JStr ''chatTypeBasicGroup'')"
    "chat_type_item basic_chat_answer ''basic_group_id'' = Inr (JInt 4)"
    "map_of basic_info_answer ''members'' = Some (JList ?members)"
    "py_iter (JList ?members) = Inr ?members"
    by (simp_all add: chat_type_item_def basic_chat_answer_def dict_item_def json_item_def
        basic_info_answer_def py_iter_def)
  have b2: "\<forall>m \<in> set ?members. user_id_of m \<noteq> None" "length ?users' = length ?members"
    by (simp_all add: user_id_of_def member_of_def)
  have b3: "answered (request_timeout ?b) (uuid_source ?b) (uuid_count ?b)
           ((''getChat'', [(''chat_id'', JInt 5)], basic_chat_answer)
            # (''getBasicGroupFullInfo'', [(''basic_group_id'', JInt 4)], basic_info_answer)
            # user_exchanges ?members ?users')
           (incoming ?b) []"
    using basic_answered by (simp add: test_client_def)
  have hb: "chat_type_item basic_chat_answer ''@type'' = Inr (JStr ''chatTypeBasicGroup'')
      \<and> chat_type_item basic_chat_answer ''basic_group_id'' = Inr (JInt 4)
      \<and> map_of basic_info_answer ''members'' = Some (JList ?members)
      \<and> py_iter (JList ?members) = Inr ?members
      \<and> (\<forall>m \<in> set ?members. user_id_of m \<noteq> None) \<and> length ?users' = length ?members
      \<and> answered (request_timeout ?b) (uuid_source ?b) (uuid_count ?b)
           ((''getChat'', [(''chat_id'', JInt 5)], basic_chat_answer)
            # (''getBasicGroupFullInfo'', [(''basic_group_id'', JInt 4)], basic_info_answer)
            # user_exchanges ?members ?users')
           (incoming ?b) []"
    by (intro conjI b1 b2 b3)
  have lb: "log ?b = []" by (simp add: test_client_def)
  note basic = get_group_members_listing [where c = ?b and group_id = 5 and page_size = 200
      and chat = basic_chat_answer and bid = "JInt 4" and info = basic_info_answer
      and l = "JList ?members" and members = ?members and users = ?users' and rest = "[]",
      THEN conjunct2, THEN conjunct1, THEN mp, OF hb, unfolded lb]
  have "\<exists>c'. get_group_members ?c 5 200 = Some (Inr ?users, c')
       \<and> incoming c' = []
       \<and> log c' = [got_members 3 2, got_members 0 2, count_mismatch (JInt 5) 2]
       \<and> (\<exists>chat members.
         length ?users = length members \<and> (\<forall>m \<in> set members. user_id_of m \<noteq> None)
       \<and> ((\<exists>bid info l.
               chat_type_item chat ''@type'' = Inr (JStr ''chatTypeBasicGroup'')
             \<and> chat_type_item chat ''basic_group_id'' = Inr bid
             \<and> map_of info ''members'' = Some l \<and> py_iter l = Inr members
             \<and> conversation ?c c'
                 ((''getChat'', [(''chat_id'', JInt 5)], chat)
                  # (''getBasicGroupFullInfo'', [(''basic_group_id'', bid)], info)
                  # user_exchanges members ?users)
             \<and> log c' = log ?c)
          \<or> (\<exists>sid trace tc.
               chat_type_item chat ''@type'' = Inr (JStr ''chatTypeSupergroup'')
             \<and> chat_type_item chat ''supergroup_id'' = Inr sid
             \<and> 1 < (200::int)
             \<and> well_membered trace
             \<and> members = new_members {} (concat (map mp_items trace))
             \<and> distinct (map member_key members)
             \<and> subseq members (concat (map mp_items trace))
             \<and> member_key ` set members = member_key ` set (concat (map mp_items trace))
             \<and> conversation ?c c'
                 ((''getChat'', [(''chat_id'', JInt 5)], chat)
                  # member_exchanges sid 200 0 trace @ user_exchanges members ?users)
             \<and> map_of (mp_answer (last trace)) ''total_count'' = Some tc
             \<and> log c' = log ?c @ member_log [] {} trace @ mismatch_log tc (length members)
             \<and> advanced ?c c' (real (length trace - 1) * request_delay ?c))))"
    by (intro exI [of _ c'] conjI r conv)
  with basic show ?thesis by (intro conjI)
qed

end
